theory Spec2Isabelle
  imports Complex_Main "HOL-Library.Multiset" "HOL-Library.Word"
begin

unbundle bit_operations_syntax

section \<open>Notes\<close>

text \<open>
  Modelled from the spec: the type \<^verbatim>\<open>Note\<close> of the packages \<^verbatim>\<open>melrose\<close> and \<^verbatim>\<open>core\<close> is
  used by every function below and declared in none of the sources. The spec gives a note a
  pitch (a MIDI number) or a rest marker, a duration factor (a fraction of a whole note) and an
  optional pedal marker, one of none, down, up and up-then-down. The record holds what the
  methods \<^verbatim>\<open>MIDI()\<close>, \<^verbatim>\<open>DurationFactor()\<close>, \<^verbatim>\<open>IsRest()\<close>, \<^verbatim>\<open>IsPedalUp()\<close>, \<^verbatim>\<open>IsPedalDown()\<close> and
  \<^verbatim>\<open>IsPedalUpDown()\<close> return. The duration factor is a \<^verbatim>\<open>float32\<close>, kept as the real number it
  stands for.
\<close>

datatype Pedal = NoPedal | PedalDown | PedalUp | PedalUpDown

record Note =
  MIDI :: int
  DurationFactor :: real
  IsRest :: bool
  pedal :: Pedal

definition IsPedalUp :: "Note \<Rightarrow> bool" where
  "IsPedalUp n = (pedal n = PedalUp)"

definition IsPedalDown :: "Note \<Rightarrow> bool" where
  "IsPedalDown n = (pedal n = PedalDown)"

definition IsPedalUpDown :: "Note \<Rightarrow> bool" where
  "IsPedalUpDown n = (pedal n = PedalUpDown)"

section \<open>The note listener (package control)\<close>

text \<open>
  \<^verbatim>\<open>Listen\<close> keeps, under its mutex, the map \<^verbatim>\<open>notesOn\<close> from a MIDI number to the value of
  the change counter at which that note went on, and the counter itself, a Go \<^verbatim>\<open>int\<close> (64 bits,
  wrapping). \<^verbatim>\<open>variables\<close> is the variable store of the context, where \<^verbatim>\<open>NoteOn\<close> puts the note
  under \<^verbatim>\<open>variableName\<close>; \<^verbatim>\<open>callbackEvaluatable\<close> says whether the value of the callback
  implements \<^verbatim>\<open>core.Evaluatable\<close>.
\<close>

record Listen =
  deviceID :: int
  variableName :: string
  variables :: "string \<rightharpoonup> Note"
  isRunning :: bool
  callbackEvaluatable :: bool
  notesOn :: "int \<rightharpoonup> 64 word"
  noteChangeCount :: "64 word"

definition NewListen :: "int \<Rightarrow> string \<Rightarrow> (string \<rightharpoonup> Note) \<Rightarrow> bool \<Rightarrow> Listen" where
  "NewListen dev name store ev =
     \<lparr>deviceID = dev, variableName = name, variables = store, isRunning = False,
      callbackEvaluatable = ev, notesOn = Map.empty, noteChangeCount = 0\<rparr>"

text \<open>
  \<^verbatim>\<open>isNoteOnCount(nr, countCheck)\<close>: is the note on, and on since that count?
\<close>

definition isNoteOnCount :: "Listen \<Rightarrow> int \<Rightarrow> 64 word \<Rightarrow> bool" where
  "isNoteOnCount l nr countCheck =
     (case notesOn l nr of None \<Rightarrow> False | Some cnt \<Rightarrow> cnt = countCheck)"

text \<open>
  \<^verbatim>\<open>NoteOn\<close>: the locked section increments the counter, records it for the note and stores
  the note; outside the lock the callback, when it can be evaluated, gets the condition
  \<^verbatim>\<open>isNoteOnCount(nr, countCheck)\<close>. The model returns the new state and the pair
  \<^verbatim>\<open>(nr, countCheck)\<close> that the condition captured (\<^verbatim>\<open>None\<close> when no condition is made).
\<close>

definition NoteOn :: "Note \<Rightarrow> Listen \<Rightarrow> Listen \<times> (int \<times> 64 word) option" where
  "NoteOn n l =
     (let countCheck = noteChangeCount l + 1;
          nr = MIDI n;
          l' = l\<lparr>noteChangeCount := countCheck,
                 notesOn := (notesOn l)(nr \<mapsto> countCheck),
                 variables := (variables l)(variableName l \<mapsto> n)\<rparr>
      in (l', if callbackEvaluatable l then Some (nr, countCheck) else None))"

text \<open>\<^verbatim>\<open>NoteOff\<close>: \<^verbatim>\<open>delete(l.notesOn, n.MIDI())\<close>, which does nothing for an absent key.\<close>

definition NoteOff :: "Note \<Rightarrow> Listen \<Rightarrow> Listen" where
  "NoteOff n l = l\<lparr>notesOn := (notesOn l)(MIDI n := None)\<rparr>"

text \<open>The events a listener receives, and a listener taking a list of them in order.\<close>

datatype NoteEvent = On Note | Off Note

fun listen_event :: "NoteEvent \<Rightarrow> Listen \<Rightarrow> Listen" where
  "listen_event (On n) l = fst (NoteOn n l)"
| "listen_event (Off n) l = NoteOff n l"

fun listen_events :: "NoteEvent list \<Rightarrow> Listen \<Rightarrow> Listen" where
  "listen_events [] l = l"
| "listen_events (e # es) l = listen_events es (listen_event e l)"

fun is_On :: "NoteEvent \<Rightarrow> bool" where
  "is_On (On n) = True"
| "is_On (Off n) = False"

section \<open>The MIDI device (package midi, device.go)\<close>

text \<open>
  A \<^verbatim>\<open>time.Duration\<close> is a signed 64-bit count of nanoseconds; the model keeps it as an
  integer and writes the wrap-around of \<^verbatim>\<open>int64\<close> arithmetic out. An instant of the wall
  clock (\<^verbatim>\<open>time.Time\<close>) is an integer count of nanoseconds.
\<close>

definition int64 :: "int \<Rightarrow> int" where
  "int64 x = (x + 2 ^ 63) mod 2 ^ 64 - 2 ^ 63"

definition Millisecond :: int where
  "Millisecond = 1000000"

text \<open>\<^verbatim>\<open>math.Round\<close>: the nearest integer, halves away from zero.\<close>

definition math_Round :: "real \<Rightarrow> real" where
  "math_Round x = (if x < 0 then - of_int \<lfloor>- x + 1 / 2\<rfloor> else of_int \<lfloor>x + 1 / 2\<rfloor>)"

text \<open>
  The conversion of a floating-point value to \<^verbatim>\<open>int\<close> or \<^verbatim>\<open>time.Duration\<close> drops the
  fraction (truncation towards zero). For a value outside the 64-bit range Go leaves the
  result to the implementation; the model takes what amd64 gives, the least 64-bit integer.
  The theorems on durations below are stated for values inside the range, or hold for any
  64-bit integer in its place.
\<close>

definition float_to_int64 :: "real \<Rightarrow> int" where
  "float_to_int64 x =
     (let t = (if x < 0 then \<lceil>x\<rceil> else \<lfloor>x\<rfloor>)
      in if - (2 ^ 63) \<le> t \<and> t < 2 ^ 63 then t else - (2 ^ 63))"

text \<open>
  Floating-point numbers. A finite \<^verbatim>\<open>float32\<close> or \<^verbatim>\<open>float64\<close> is kept as the real number it
  stands for, and an operation gives its exact result rounded to 24 (\<^verbatim>\<open>float32\<close>) or 53
  (\<^verbatim>\<open>float64\<close>) significant bits: to the nearest such number, and of two that are equally
  near to the one whose last bit is even. The model does not bound the exponent. Where the
  hardware gives an infinity the model gives a number beyond the 64-bit range, and the
  conversion to an integer treats the two alike; where the hardware gives a subnormal number
  the result is below one nanosecond either way. NaN is not a value of the model.
\<close>

definition round_half_even :: "real \<Rightarrow> int" where
  "round_half_even y =
     (let f = \<lfloor>y\<rfloor>; r = y - of_int f
      in if r < 1 / 2 then f else if 1 / 2 < r then f + 1 else if even f then f else f + 1)"

definition float_round :: "nat \<Rightarrow> real \<Rightarrow> real" where
  "float_round p x =
     (if x = 0 then 0
      else let e = \<lfloor>log 2 \<bar>x\<bar>\<rfloor> - int p + 1
           in of_int (round_half_even (x / 2 powr of_int e)) * 2 powr of_int e)"

definition float32 :: "real \<Rightarrow> real" where
  "float32 x = float_round 24 x"

definition float64 :: "real \<Rightarrow> real" where
  "float64 x = float_round 53 x"

datatype error = NoDefaultOutputDevice | PortmidiError string | TracedError error string int

record Midi =
  enabled :: bool
  stream :: nat
  bpm :: real
  midiDeviceID :: int
  echo :: bool

definition noteOn :: int where
  "noteOn = 0x90"

definition noteOff :: int where
  "noteOff = 0x80"

text \<open>
  \<^verbatim>\<open>Open\<close>, given what \<^verbatim>\<open>portmidi.DefaultOutputDeviceID()\<close> and
  \<^verbatim>\<open>portmidi.NewOutputStream\<close> answer.
\<close>

definition Open :: "int \<Rightarrow> (error + nat) \<Rightarrow> error + Midi" where
  "Open defaultOutputDeviceID newOutputStream =
     (if defaultOutputDeviceID = - 1 then Inl NoDefaultOutputDevice
      else case newOutputStream of
             Inl err \<Rightarrow> Inl err
           | Inr out \<Rightarrow>
               Inr \<lparr>enabled = True, stream = out, bpm = 120, midiDeviceID = 0, echo = False\<rparr>)"

definition SetBeatsPerMinute :: "real \<Rightarrow> Midi \<Rightarrow> Midi" where
  "SetBeatsPerMinute b m = (if b \<le> 0 then m else m\<lparr>bpm := b\<rparr>)"

definition BeatsPerMinute :: "Midi \<Rightarrow> real" where
  "BeatsPerMinute m = bpm m"

text \<open>
  The first statement of \<^verbatim>\<open>Play\<close> after the guard:
  \<^verbatim>\<open>time.Duration(int(math.Round(4*60*1000/m.bpm))) * time.Millisecond\<close>. A float64 division
  by zero gives an infinity, which is outside the range of the conversion.
\<close>

definition wholeNoteDuration :: "real \<Rightarrow> int" where
  "wholeNoteDuration b =
     (if b = 0 then int64 (- (2 ^ 63) * Millisecond)
      else int64 (float_to_int64 (math_Round (float64 (4 * 60 * 1000 / b))) * Millisecond))"

text \<open>
  \<^verbatim>\<open>PlayNote\<close>. \<^verbatim>\<open>time.Sleep\<close> returns at once for a duration that is not positive, so a
  sleep takes \<open>max 0 d\<close>. A write to the stream is \<^verbatim>\<open>WriteShort(status, data1, data2)\<close>, kept
  with the instant at which it is made. The model takes the instant at which the note starts
  and gives the instant at which \<^verbatim>\<open>PlayNote\<close> returns, with the writes made. A sleep lasts
  what it is asked to and a write takes no time. The actual duration of the note is
  \<^verbatim>\<open>time.Duration(float32(wholeNoteDuration) * note.DurationFactor())\<close>: a conversion to
  \<^verbatim>\<open>float32\<close>, a \<^verbatim>\<open>float32\<close> product and a truncation.
\<close>

datatype midi_write = WriteShort int int int

definition actualDuration :: "int \<Rightarrow> Note \<Rightarrow> int" where
  "actualDuration whole note =
     float_to_int64 (float32 (float32 (of_int whole) * DurationFactor note))"

definition Sleep :: "int \<Rightarrow> int" where
  "Sleep d = max 0 d"

definition PlayNote :: "Midi \<Rightarrow> Note \<Rightarrow> int \<Rightarrow> int \<Rightarrow> int \<times> (int \<times> midi_write) multiset" where
  "PlayNote m note whole t =
     (let d = actualDuration whole note
      in if IsRest note then (t + Sleep d, {#})
         else let data1 = MIDI note
              in (t + Sleep d,
                  {#(t, WriteShort noteOn data1 100), (t + Sleep d, WriteShort noteOff data1 100)#}))"

text \<open>
  One group of \<^verbatim>\<open>Play\<close>: a goroutine per note, all started at the instant \<open>t\<close>, and
  \<^verbatim>\<open>wg.Wait()\<close>, which returns when the last of them is done (at once for an empty group).
  The writes of the goroutines are serialised by the mutex in an order the scheduler decides,
  so they are kept as a multiset.
\<close>

fun PlayGroup :: "Midi \<Rightarrow> int \<Rightarrow> int \<Rightarrow> Note list \<Rightarrow> int \<times> (int \<times> midi_write) multiset" where
  "PlayGroup m whole t [] = (t, {#})"
| "PlayGroup m whole t (n # ns) =
     (let (e1, w1) = PlayNote m n whole t;
          (e2, w2) = PlayGroup m whole t ns
      in (max e1 e2, w1 + w2))"

text \<open>What the echo prints: a single note, a group, and the final line break.\<close>

datatype echoed = EchoNote Note | EchoGroup "Note list" | EchoNewline

record Sequence =
  Notes :: "Note list list"

fun PlayGroups ::
  "Midi \<Rightarrow> bool \<Rightarrow> int \<Rightarrow> int \<Rightarrow> Note list list \<Rightarrow> int \<times> (int \<times> midi_write) multiset \<times> echoed list" where
  "PlayGroups m ech whole t [] = (t, {#}, [])"
| "PlayGroups m ech whole t (eachGroup # rest) =
     (let pr = (if ech then [case eachGroup of [n] \<Rightarrow> EchoNote n | _ \<Rightarrow> EchoGroup eachGroup]
                else []);
          (t1, w1) = PlayGroup m whole t eachGroup;
          (t2, w2, pr2) = PlayGroups m ech whole t1 rest
      in (t2, w1 + w2, pr @ pr2))"

text \<open>
  \<^verbatim>\<open>Play\<close> blocks until the last group is done. The model makes the wall clock explicit:
  it takes the instant \<open>beginAt\<close> of the call and gives the instant at which the call returns
  (the \<open>endingAt\<close> of the interface \<^verbatim>\<open>AudioDevice\<close>), the writes made to the stream and what
  was printed.
\<close>

definition Play ::
  "Midi \<Rightarrow> Sequence \<Rightarrow> bool \<Rightarrow> int \<Rightarrow> int \<times> (int \<times> midi_write) multiset \<times> echoed list" where
  "Play m seq ech beginAt =
     (if \<not> enabled m then (beginAt, {#}, [])
      else let whole = wholeNoteDuration (bpm m);
               (t, w, pr) = PlayGroups m ech whole beginAt (Notes seq)
           in (t, w, pr @ (if ech then [EchoNewline] else [])))"

text \<open>The time a group takes: the instant at which a group started at instant 0 is done.\<close>

definition groupDuration :: "Midi \<Rightarrow> int \<Rightarrow> Note list \<Rightarrow> int" where
  "groupDuration m whole g = fst (PlayGroup m whole 0 g)"

text \<open>
  The operations of a \<^verbatim>\<open>Midi\<close> value after \<^verbatim>\<open>Open\<close>, as changes of its fields: only
  \<^verbatim>\<open>SetBeatsPerMinute\<close> assigns one.
\<close>

datatype MidiOp =
    OpPlay Sequence bool
  | OpPlayNote Note int
  | OpSetBeatsPerMinute real
  | OpBeatsPerMinute
  | OpPrintInfo

fun midi_op :: "MidiOp \<Rightarrow> Midi \<Rightarrow> Midi" where
  "midi_op (OpSetBeatsPerMinute b) m = SetBeatsPerMinute b m"
| "midi_op _ m = m"

fun midi_ops :: "MidiOp list \<Rightarrow> Midi \<Rightarrow> Midi" where
  "midi_ops [] m = m"
| "midi_ops (x # xs) m = midi_ops xs (midi_op x m)"

section \<open>Pedal events (package midi)\<close>

text \<open>
  Modelled from the spec: the constants \<^verbatim>\<open>controlChange\<close> and \<^verbatim>\<open>sustainPedal\<close> are declared in
  none of the sources. The spec gives the status byte of a Control-Change message as
  \<^verbatim>\<open>0xB0 | (channel-1)\<close> and the sustain pedal as MIDI continuous controller 64.
\<close>

definition controlChange :: int where
  "controlChange = 0xB0"

definition sustainPedal :: int where
  "sustainPedal = 64"

record pedalEvent =
  goingDown :: bool
  channel :: int
  out :: nat

text \<open>
  \<^verbatim>\<open>pedalEvent.Handle\<close>: the stream written to and the message written. The timeline and the
  firing time it is given are used for nothing but a debug line.
\<close>

definition Handle :: "pedalEvent \<Rightarrow> nat \<times> midi_write" where
  "Handle p =
     (let onoff = (if goingDown p then 127 else 0);
          status = controlChange OR (channel p - 1)
      in (out p, WriteShort status sustainPedal onoff))"

text \<open>
  Modelled from the spec: \<^verbatim>\<open>core.Timeline\<close> and \<^verbatim>\<open>core.TimelineEvent\<close> are declared in none of
  the sources. An event is a pedal event or an event of some producer. \<^verbatim>\<open>Schedule(event, at)\<close>
  enqueues an event for firing at the instant \<^verbatim>\<open>at\<close>; the model of a timeline is the list of
  what was submitted to it, in the order of submission. The scheduler fires the pending events
  in the order of their instants, events with equal instants in the order of submission:
  \<open>firing_order\<close> is that order (\<open>sort_key\<close> is the stable insertion sort).
\<close>

datatype TimelineEvent = PedalEvent pedalEvent | OtherEvent nat

type_synonym Timeline = "(TimelineEvent \<times> int) list"

definition Schedule :: "TimelineEvent \<Rightarrow> int \<Rightarrow> Timeline \<Rightarrow> Timeline" where
  "Schedule event beginAt timeline = timeline @ [(event, beginAt)]"

definition firing_order :: "Timeline \<Rightarrow> (TimelineEvent \<times> int) list" where
  "firing_order timeline = sort_key snd timeline"

text \<open>
  \<^verbatim>\<open>handledPedalChange\<close>: the timeline after the call and the result. The case of a pedal going
  down schedules its event and leaves the \<^verbatim>\<open>switch\<close> without a \<^verbatim>\<open>return\<close>, so the function
  goes on to the final \<^verbatim>\<open>return false\<close>.
\<close>

definition handledPedalChange ::
  "Midi \<Rightarrow> int \<Rightarrow> Timeline \<Rightarrow> int \<Rightarrow> Note list \<Rightarrow> Timeline \<times> bool" where
  "handledPedalChange m chan timeline moment grp =
     (if length grp = 0 \<or> length grp > 1 then (timeline, False)
      else let note = grp ! 0
           in if IsPedalUp note then
                (Schedule (PedalEvent \<lparr>goingDown = False, channel = chan, out = stream m\<rparr>)
                   moment timeline, True)
              else if IsPedalUpDown note then
                (Schedule (PedalEvent \<lparr>goingDown = True, channel = chan, out = stream m\<rparr>) moment
                   (Schedule (PedalEvent \<lparr>goingDown = False, channel = chan, out = stream m\<rparr>)
                      moment timeline), True)
              else if IsPedalDown note then
                (Schedule (PedalEvent \<lparr>goingDown = True, channel = chan, out = stream m\<rparr>)
                   moment timeline, False)
              else (timeline, False))"

section \<open>The device registry (package midi)\<close>

text \<open>
  Modelled from the spec: \<^verbatim>\<open>OutputDevice\<close>, \<^verbatim>\<open>NewOutputDevice\<close> and \<^verbatim>\<open>Start\<close> are declared in none
  of the sources. The spec gives an output device one hardware output stream, a default MIDI
  channel and an echo flag, and has \<^verbatim>\<open>Output\<close> start its playback-accepting state.
\<close>

record OutputDevice =
  odID :: int
  odStream :: nat
  defaultChannel :: int
  odEcho :: bool
  started :: bool

definition NewOutputDevice :: "int \<Rightarrow> nat \<Rightarrow> int \<Rightarrow> OutputDevice" where
  "NewOutputDevice i midiOut ch =
     \<lparr>odID = i, odStream = midiOut, defaultChannel = ch, odEcho = False, started = False\<rparr>"

text \<open>
  The registry holds pointers: \<^verbatim>\<open>d.out\<close> maps a device id to the address of an
  \<^verbatim>\<open>OutputDevice\<close>, and two callers have the same instance when they have the same address.
  \<open>devices\<close> is the store of the output devices made so far and \<open>nextAddress\<close> the address of
  the next one. \<^verbatim>\<open>streamRegistry.output\<close> is not among the sources: what it answers for an id
  is the parameter \<open>streamOutput\<close>, and \<open>outputCalls\<close> lists the calls made to it.
\<close>

record DeviceRegistry =
  devices :: "nat \<rightharpoonup> OutputDevice"
  nextAddress :: nat
  outCache :: "int \<rightharpoonup> nat"
  defaultInputID :: int
  defaultOutputID :: int
  outputCalls :: "int list"

definition NewDeviceRegistry :: "int \<Rightarrow> error + DeviceRegistry" where
  "NewDeviceRegistry outputID =
     (if outputID = - 1 then Inl NoDefaultOutputDevice
      else Inr \<lparr>devices = Map.empty, nextAddress = 0, outCache = Map.empty,
                defaultInputID = 0, defaultOutputID = outputID, outputCalls = []\<rparr>)"

text \<open>
  \<^verbatim>\<open>Output\<close> has two critical sections. Under the shared lock it looks the id up in
  \<^verbatim>\<open>d.out\<close> and returns the device found. Otherwise it releases the shared lock, takes the
  exclusive lock and, without a second look at \<^verbatim>\<open>d.out\<close>, asks the stream registry for the
  stream, makes a new \<^verbatim>\<open>OutputDevice\<close>, stores it under the id and starts it.
\<close>

definition Output_locked ::
  "(int \<Rightarrow> error + nat) \<Rightarrow> int \<Rightarrow> DeviceRegistry \<Rightarrow> (error + nat) \<times> DeviceRegistry" where
  "Output_locked streamOutput i d =
     (let d1 = d\<lparr>outputCalls := outputCalls d @ [i]\<rparr>
      in case streamOutput i of
           Inl err \<Rightarrow> (Inl (TracedError err ''Output'' i), d1)
         | Inr midiOut \<Rightarrow>
             (let od = nextAddress d1;
                  d2 = d1\<lparr>devices := (devices d1)(od \<mapsto> NewOutputDevice i midiOut 1),
                          nextAddress := Suc od\<rparr>;
                  d3 = d2\<lparr>outCache := (outCache d2)(i \<mapsto> od)\<rparr>;
                  d4 = d3\<lparr>devices := (devices d3)(od \<mapsto> (NewOutputDevice i midiOut 1)\<lparr>started := True\<rparr>)\<rparr>
              in (Inr od, d4)))"

definition Output ::
  "(int \<Rightarrow> error + nat) \<Rightarrow> int \<Rightarrow> DeviceRegistry \<Rightarrow> (error + nat) \<times> DeviceRegistry" where
  "Output streamOutput i d =
     (case outCache d i of
        Some m \<Rightarrow> (Inr m, d)
      | None \<Rightarrow> Output_locked streamOutput i d)"

text \<open>
  Concurrent callers of \<^verbatim>\<open>Output\<close>. The locks make each critical section atomic, so a caller
  is before its look-up, between the miss and the exclusive lock, or done; a schedule names the
  caller that runs its next section.
\<close>

datatype caller = Calling int | Missed int | Returned "error + nat"

fun caller_step ::
  "(int \<Rightarrow> error + nat) \<Rightarrow> caller \<Rightarrow> DeviceRegistry \<Rightarrow> caller \<times> DeviceRegistry" where
  "caller_step streamOutput (Calling i) d =
     (case outCache d i of Some m \<Rightarrow> (Returned (Inr m), d) | None \<Rightarrow> (Missed i, d))"
| "caller_step streamOutput (Missed i) d =
     (let (r, d') = Output_locked streamOutput i d in (Returned r, d'))"
| "caller_step streamOutput (Returned r) d = (Returned r, d)"

fun run_schedule ::
  "(int \<Rightarrow> error + nat) \<Rightarrow> nat list \<Rightarrow> caller list \<times> DeviceRegistry
     \<Rightarrow> caller list \<times> DeviceRegistry" where
  "run_schedule streamOutput [] cfg = cfg"
| "run_schedule streamOutput (k # ks) (cs, d) =
     (if k < length cs
      then let (c', d') = caller_step streamOutput (cs ! k) d
           in run_schedule streamOutput ks (cs[k := c'], d')
      else run_schedule streamOutput ks (cs, d))"

definition emptyRegistry :: DeviceRegistry where
  "emptyRegistry =
     \<lparr>devices = Map.empty, nextAddress = 0, outCache = Map.empty,
      defaultInputID = 0, defaultOutputID = 0, outputCalls = []\<rparr>"

section \<open>Sample inputs\<close>

text \<open>Sample notes: a quarter note on middle C, a whole note on the E above it.\<close>

definition middle_c :: Note where
  "middle_c = \<lparr>MIDI = 60, DurationFactor = 1 / 4, IsRest = False, pedal = NoPedal\<rparr>"

definition whole_e :: Note where
  "whole_e = \<lparr>MIDI = 64, DurationFactor = 1, IsRest = False, pedal = NoPedal\<rparr>"

definition whole_c :: Note where
  "whole_c = \<lparr>MIDI = 60, DurationFactor = 1, IsRest = False, pedal = NoPedal\<rparr>"

definition whole_g :: Note where
  "whole_g = \<lparr>MIDI = 67, DurationFactor = 1, IsRest = False, pedal = NoPedal\<rparr>"

definition half_d :: Note where
  "half_d = \<lparr>MIDI = 62, DurationFactor = 1 / 2, IsRest = False, pedal = NoPedal\<rparr>"

text \<open>
  A note of two whole notes, a note of the 128th part of a whole note, and a note with a
  negative duration factor, which a \<^verbatim>\<open>float32\<close> can be.
\<close>

definition breve_c :: Note where
  "breve_c = \<lparr>MIDI = 60, DurationFactor = 2, IsRest = False, pedal = NoPedal\<rparr>"

definition c_128th :: Note where
  "c_128th = \<lparr>MIDI = 60, DurationFactor = 1 / 128, IsRest = False, pedal = NoPedal\<rparr>"

definition negative_c :: Note where
  "negative_c = \<lparr>MIDI = 60, DurationFactor = - 1, IsRest = False, pedal = NoPedal\<rparr>"

text \<open>Pedal notes, a device as \<^verbatim>\<open>Open\<close> makes it, and the zero value of \<^verbatim>\<open>Midi\<close>.\<close>

definition pedal_note :: "Pedal \<Rightarrow> Note" where
  "pedal_note p = \<lparr>MIDI = 0, DurationFactor = 0, IsRest = False, pedal = p\<rparr>"

definition opened_midi :: Midi where
  "opened_midi = \<lparr>enabled = True, stream = 7, bpm = 120, midiDeviceID = 0, echo = False\<rparr>"

definition disabled_midi :: Midi where
  "disabled_midi = \<lparr>enabled = False, stream = 0, bpm = 0, midiDeviceID = 0, echo = False\<rparr>"

section \<open>Properties of the note listener\<close>

lemma NoteOn_count: "noteChangeCount (fst (NoteOn n l)) = noteChangeCount l + 1"
  by (simp add: NoteOn_def Let_def)

lemma NoteOn_notesOn:
  "notesOn (fst (NoteOn n l)) = (notesOn l)(MIDI n \<mapsto> noteChangeCount l + 1)"
  by (simp add: NoteOn_def Let_def)

lemma NoteOff_count: "noteChangeCount (NoteOff n l) = noteChangeCount l"
  by (simp add: NoteOff_def)

text \<open>
  C10. \<^verbatim>\<open>NoteOff\<close> for a note whose MIDI number is not in \<^verbatim>\<open>notesOn\<close> leaves the whole
  listener as it was (the model has no failing branch, as \<^verbatim>\<open>delete\<close> has none), and a second
  \<^verbatim>\<open>NoteOff\<close> for the same pitch changes nothing after the first.
\<close>

theorem NoteOff_absent_unchanged:
  "(notesOn l (MIDI n) = None \<longrightarrow> NoteOff n l = l) \<and>
   (MIDI n' = MIDI n \<longrightarrow> NoteOff n' (NoteOff n l) = NoteOff n l)"
  by (simp add: NoteOff_def fun_upd_idem)

theorem NoteOff_absent_unchanged_witness:
  "notesOn (NewListen 1 ''note'' Map.empty True) (MIDI middle_c) = None \<and>
   NoteOff middle_c (NewListen 1 ''note'' Map.empty True) = NewListen 1 ''note'' Map.empty True \<and>
   MIDI middle_c = MIDI middle_c \<and>
   NoteOff middle_c (NoteOff middle_c (fst (NoteOn middle_c (NewListen 1 ''note'' Map.empty True))))
     = NoteOff middle_c (fst (NoteOn middle_c (NewListen 1 ''note'' Map.empty True)))"
  using NoteOff_absent_unchanged [of "NewListen 1 ''note'' Map.empty True" middle_c middle_c]
    NoteOff_absent_unchanged [of "fst (NoteOn middle_c (NewListen 1 ''note'' Map.empty True))"
      middle_c middle_c]
  by (simp add: NewListen_def)

lemma listen_events_count:
  "noteChangeCount (listen_events evs l) = noteChangeCount l + of_nat (length (filter is_On evs))"
proof (induction evs arbitrary: l)
  case Nil
  then show ?case by simp
next
  case (Cons e evs)
  then show ?case by (cases e) (simp_all add: NoteOn_count NoteOff_count)
qed

lemma word64_of_nat_nonzero:
  assumes "0 < k" and "k < 2 ^ 64"
  shows "(of_nat k :: 64 word) \<noteq> 0"
proof
  assume "(of_nat k :: 64 word) = 0"
  then have "(2::nat) ^ 64 dvd k" by (simp add: word_of_nat_eq_0_iff)
  with assms show False by (auto dest: dvd_imp_le)
qed

text \<open>
  C6. Let a \<^verbatim>\<open>NoteOn\<close> of MIDI number \<open>m\<close> record the counter value \<open>c\<close>. The condition it
  captures is the pair \<open>(m, c)\<close>; in any state of the listener the condition holds exactly when
  \<^verbatim>\<open>notesOn[m]\<close> is present and equal to \<open>c\<close>, and it holds right after the \<^verbatim>\<open>NoteOn\<close>. After any
  further events (fewer than \<open>2^64 - 1\<close> of them note-ons, so that the 64-bit counter has not
  come round to \<open>c\<close> again), a \<^verbatim>\<open>NoteOff\<close> of \<open>m\<close> followed by a new \<^verbatim>\<open>NoteOn\<close> of \<open>m\<close> makes the
  original condition false.
\<close>

theorem guard_predicate:
  assumes "NoteOn n l = (l1, g)" and "c = noteChangeCount l1"
    and "MIDI n' = MIDI n" and "MIDI n'' = MIDI n"
    and "length (filter is_On evs) < 2 ^ 64 - 1"
  shows "(isNoteOnCount s (MIDI n) c \<longleftrightarrow> notesOn s (MIDI n) = Some c) \<and>
     isNoteOnCount l1 (MIDI n) c \<and>
     (callbackEvaluatable l \<longrightarrow> g = Some (MIDI n, c)) \<and>
     \<not> isNoteOnCount (fst (NoteOn n'' (NoteOff n' (listen_events evs l1)))) (MIDI n) c"
proof -
  let ?k = "length (filter is_On evs)"
  have l1: "l1 = fst (NoteOn n l)" using assms(1) by simp
  have a: "isNoteOnCount s (MIDI n) c \<longleftrightarrow> notesOn s (MIDI n) = Some c"
    by (auto simp: isNoteOnCount_def split: option.splits)
  have b: "isNoteOnCount l1 (MIDI n) c"
    using assms(2) by (simp add: l1 isNoteOnCount_def NoteOn_notesOn NoteOn_count)
  have d: "callbackEvaluatable l \<longrightarrow> g = Some (MIDI n, c)"
    using assms(1,2) by (auto simp: NoteOn_def Let_def)
  have "noteChangeCount (NoteOff n' (listen_events evs l1)) + 1 = c + of_nat (Suc ?k)"
    by (simp add: NoteOff_count listen_events_count assms(2))
  moreover have "(of_nat (Suc ?k) :: 64 word) \<noteq> 0"
    using assms(5) by (intro word64_of_nat_nonzero) simp_all
  ultimately have "noteChangeCount (NoteOff n' (listen_events evs l1)) + 1 \<noteq> c"
    by (metis add_cancel_right_right)
  then have e: "\<not> isNoteOnCount (fst (NoteOn n'' (NoteOff n' (listen_events evs l1)))) (MIDI n) c"
    by (simp add: isNoteOnCount_def NoteOn_notesOn assms(4))
  from a b d e show ?thesis by blast
qed

theorem guard_predicate_witness:
  "NoteOn middle_c (NewListen 1 ''note'' Map.empty True)
     = (fst (NoteOn middle_c (NewListen 1 ''note'' Map.empty True)), Some (60, 1)) \<and>
   noteChangeCount (fst (NoteOn middle_c (NewListen 1 ''note'' Map.empty True))) = 1 \<and>
   length (filter is_On [On whole_e, Off whole_e]) < 2 ^ 64 - 1 \<and>
   isNoteOnCount (fst (NoteOn middle_c (NewListen 1 ''note'' Map.empty True))) 60 1 \<and>
   \<not> isNoteOnCount
       (fst (NoteOn middle_c (NoteOff middle_c (listen_events [On whole_e, Off whole_e]
          (fst (NoteOn middle_c (NewListen 1 ''note'' Map.empty True))))))) 60 1"
proof -
  let ?l = "NewListen 1 ''note'' Map.empty True"
  have h1: "NoteOn middle_c ?l = (fst (NoteOn middle_c ?l), Some (60, 1))"
    by (simp add: NoteOn_def NewListen_def middle_c_def Let_def)
  have h2: "(1 :: 64 word) = noteChangeCount (fst (NoteOn middle_c ?l))"
    by (simp add: NoteOn_count NewListen_def)
  have h3: "length (filter is_On [On whole_e, Off whole_e]) < 2 ^ 64 - 1"
    by simp
  have m: "MIDI middle_c = 60" by (simp add: middle_c_def)
  show ?thesis
    using guard_predicate [OF h1 h2 refl refl h3, of ?l] h1 h2 [symmetric] h3
    unfolding m by blast
qed

section \<open>Properties of the MIDI device\<close>

lemma midi_op_bpm_pos: "0 < bpm m \<Longrightarrow> 0 < bpm (midi_op x m)"
  by (cases x) (simp_all add: SetBeatsPerMinute_def)

lemma midi_ops_bpm_pos: "0 < bpm m \<Longrightarrow> 0 < bpm (midi_ops xs m)"
  by (induction xs arbitrary: m) (simp_all add: midi_op_bpm_pos)

text \<open>
  C7. \<^verbatim>\<open>SetBeatsPerMinute\<close> with a value that is zero or negative leaves the device as it was;
  with a positive value the stored BPM becomes that value. So the BPM of a device that \<^verbatim>\<open>Open\<close>
  returned (which sets 120) is positive after any list of operations.
\<close>

theorem SetBeatsPerMinute_positive:
  "(v \<le> 0 \<longrightarrow> SetBeatsPerMinute v m = m) \<and>
   (0 < v \<longrightarrow> BeatsPerMinute (SetBeatsPerMinute v m) = v) \<and>
   (Open dev st = Inr m0 \<longrightarrow> 0 < BeatsPerMinute (midi_ops xs m0))"
proof -
  have "0 < bpm (midi_ops xs m0)" if "Open dev st = Inr m0"
  proof -
    from that have "bpm m0 = 120"
      by (auto simp: Open_def split: if_splits sum.splits)
    then show ?thesis by (simp add: midi_ops_bpm_pos)
  qed
  then show ?thesis by (simp add: SetBeatsPerMinute_def BeatsPerMinute_def)
qed

theorem SetBeatsPerMinute_positive_witness:
  "(- 3 :: real) \<le> 0 \<and> SetBeatsPerMinute (- 3) opened_midi = opened_midi \<and>
   (0 :: real) < 90 \<and> BeatsPerMinute (SetBeatsPerMinute 90 opened_midi) = 90 \<and>
   Open 0 (Inr 7) = Inr opened_midi \<and>
   0 < BeatsPerMinute
         (midi_ops [OpSetBeatsPerMinute 0, OpPlay \<lparr>Notes = [[middle_c]]\<rparr> True,
                    OpSetBeatsPerMinute (- 1)] opened_midi)"
proof -
  have o: "Open 0 (Inr 7) = Inr opened_midi"
    by (simp add: Open_def opened_midi_def)
  show ?thesis
    using SetBeatsPerMinute_positive [of "- 3" opened_midi 0 "Inr 7" opened_midi
        "[OpSetBeatsPerMinute 0, OpPlay \<lparr>Notes = [[middle_c]]\<rparr> True, OpSetBeatsPerMinute (- 1)]"]
      SetBeatsPerMinute_positive [of 90 opened_midi 0 "Inr 7" opened_midi "[]"] o
    by simp
qed

text \<open>
  C8. \<^verbatim>\<open>Play\<close> on a device that is not enabled returns at the instant it was called, has made no
  write to the stream and has printed nothing, whatever the sequence. \<^verbatim>\<open>Play\<close> has no error
  result, and this path runs no statement but the \<^verbatim>\<open>return\<close>.
\<close>

theorem Play_disabled: "\<not> enabled m \<Longrightarrow> Play m seq ech beginAt = (beginAt, {#}, [])"
  by (simp add: Play_def)

theorem Play_disabled_witness:
  "\<not> enabled disabled_midi \<and>
   Play disabled_midi \<lparr>Notes = [[whole_c, whole_e, whole_g], [half_d]]\<rparr> True 1000
     = (1000, {#}, [])"
proof -
  have h: "\<not> enabled disabled_midi" by (simp add: disabled_midi_def)
  show ?thesis using Play_disabled [OF h] h by simp
qed

lemma PlayGroup_shift: "fst (PlayGroup m whole t g) = t + groupDuration m whole g"
  unfolding groupDuration_def
proof (induction g)
  case Nil
  then show ?case by simp
next
  case (Cons n g)
  then show ?case
    by (simp add: PlayNote_def Let_def split_beta)
qed

lemma PlayGroups_end:
  "fst (PlayGroups m ech whole t gs) = t + (\<Sum>g\<leftarrow>gs. groupDuration m whole g)"
proof (induction gs arbitrary: t)
  case Nil
  then show ?case by simp
next
  case (Cons g gs)
  then show ?case
    by (simp add: split_beta Let_def PlayGroup_shift)
qed

lemma groupDuration_Nil: "groupDuration m whole [] = 0"
  by (simp add: groupDuration_def)

lemma groupDuration_Cons:
  "groupDuration m whole (n # g) = max (Sleep (actualDuration whole n)) (groupDuration m whole g)"
  by (simp add: groupDuration_def PlayNote_def Let_def split_beta)

subsection \<open>Rounding to a floating-point number\<close>

lemma round_half_even_close: "\<bar>of_int (round_half_even y) - y\<bar> \<le> 1 / 2"
  unfolding round_half_even_def Let_def by (simp add: abs_if) linarith

lemma round_half_even_of_int [simp]: "round_half_even (of_int n) = n"
  by (simp add: round_half_even_def)

lemma round_half_even_mono:
  assumes "y \<le> z"
  shows "round_half_even y \<le> round_half_even z"
proof (rule ccontr)
  assume "\<not> ?thesis"
  then have gt: "round_half_even z + 1 \<le> round_half_even y" by simp
  have a: "\<bar>of_int (round_half_even y) - y\<bar> \<le> 1 / 2"
    and b: "\<bar>of_int (round_half_even z) - z\<bar> \<le> 1 / 2"
    by (rule round_half_even_close)+
  from gt have "real_of_int (round_half_even z) + 1 \<le> of_int (round_half_even y)"
    by linarith
  with a b assms have "y = z" by linarith
  with gt show False by simp
qed

lemma float_round_0 [simp]: "float_round p 0 = 0"
  by (simp add: float_round_def)

lemma float_round_eq:
  assumes "2 powr of_int k \<le> \<bar>x\<bar>" and "\<bar>x\<bar> < 2 powr of_int (k + 1)"
  shows "float_round p x
      = of_int (round_half_even (x / 2 powr of_int (k - int p + 1))) * 2 powr of_int (k - int p + 1)"
proof -
  have "(0 :: real) < 2 powr of_int k" by simp
  with assms(1) have pos: "0 < \<bar>x\<bar>" by linarith
  then have "\<lfloor>log 2 \<bar>x\<bar>\<rfloor> = k"
    using assms by (subst floor_log_eq_powr_iff) simp_all
  with pos show ?thesis by (simp add: float_round_def Let_def)
qed

lemma float_round_error: "\<bar>float_round p x - x\<bar> \<le> \<bar>x\<bar> * 2 powr (- real p)"
proof (cases "x = 0")
  case True
  then show ?thesis by simp
next
  case False
  define k where "k = \<lfloor>log 2 \<bar>x\<bar>\<rfloor>"
  define s :: real where "s = 2 powr of_int (k - int p + 1)"
  have pos: "0 < \<bar>x\<bar>" using False by simp
  have kx: "2 powr of_int k \<le> \<bar>x\<bar>" "\<bar>x\<bar> < 2 powr of_int (k + 1)"
    using floor_log_eq_powr_iff [of "\<bar>x\<bar>" 2 k] pos by (simp_all add: k_def)
  have s0: "0 < s" by (simp add: s_def)
  have fr: "float_round p x = of_int (round_half_even (x / s)) * s"
    using float_round_eq [OF kx] by (simp add: s_def)
  have "float_round p x - x = (of_int (round_half_even (x / s)) - x / s) * s"
    using s0 by (simp add: fr left_diff_distrib)
  then have "\<bar>float_round p x - x\<bar> = \<bar>of_int (round_half_even (x / s)) - x / s\<bar> * s"
    using s0 by (simp add: abs_mult)
  also have "\<dots> \<le> 1 / 2 * s"
    using s0 round_half_even_close [of "x / s"] by (intro mult_right_mono) simp_all
  also have "1 / 2 * s = 2 powr of_int k * 2 powr (- real p)"
    by (simp add: s_def powr_add [symmetric] powr_minus_divide field_simps)
       (simp add: powr_diff powr_add)
  also have "\<dots> \<le> \<bar>x\<bar> * 2 powr (- real p)"
    using kx(1) by (intro mult_right_mono) simp_all
  finally show ?thesis .
qed

lemma float_round_bounds:
  assumes "0 < p" and "2 powr of_int k \<le> x" and "x < 2 powr of_int (k + 1)"
  shows "2 powr of_int k \<le> float_round p x" and "float_round p x \<le> 2 powr of_int (k + 1)"
proof -
  define s :: real where "s = 2 powr of_int (k - int p + 1)"
  have "(0 :: real) < 2 powr of_int k" by simp
  with assms(2) have x0: "0 < x" by linarith
  have s0: "0 < s" by (simp add: s_def)
  have fr: "float_round p x = of_int (round_half_even (x / s)) * s"
    using float_round_eq [of k x p] assms x0 by (simp add: s_def)
  have lo: "2 powr of_int k = of_int (2 ^ (p - 1)) * s"
  proof -
    have "of_int (2 ^ (p - 1)) = 2 powr (real p - 1)"
      using assms(1) by (simp add: powr_realpow [symmetric] of_nat_diff)
    then show ?thesis by (simp add: s_def powr_add [symmetric])
  qed
  have hi: "2 powr of_int (k + 1) = of_int (2 ^ p) * s"
  proof -
    have "of_int (2 ^ p) = 2 powr real p"
      by (simp add: powr_realpow [symmetric])
    then show ?thesis by (simp add: s_def powr_add [symmetric])
  qed
  have "of_int (2 ^ (p - 1)) * s \<le> x"
    using assms(2) lo by linarith
  then have "of_int (2 ^ (p - 1)) \<le> x / s"
    using s0 by (simp only: pos_le_divide_eq)
  then have "round_half_even (of_int (2 ^ (p - 1))) \<le> round_half_even (x / s)"
    by (rule round_half_even_mono)
  then have "real_of_int (2 ^ (p - 1)) \<le> of_int (round_half_even (x / s))"
    by (simp only: round_half_even_of_int of_int_le_iff)
  then show "2 powr of_int k \<le> float_round p x"
    unfolding lo fr using s0 by (intro mult_right_mono) simp_all
  have "x \<le> of_int (2 ^ p) * s"
    using assms(3) hi by linarith
  then have "x / s \<le> of_int (2 ^ p)"
    using s0 by (simp only: pos_divide_le_eq)
  then have "round_half_even (x / s) \<le> round_half_even (of_int (2 ^ p))"
    by (rule round_half_even_mono)
  then have "real_of_int (round_half_even (x / s)) \<le> of_int (2 ^ p)"
    by (simp only: round_half_even_of_int of_int_le_iff)
  then show "float_round p x \<le> 2 powr of_int (k + 1)"
    unfolding hi fr using s0 by (intro mult_right_mono) simp_all
qed

lemma float_round_nonneg: "0 \<le> x \<Longrightarrow> 0 \<le> float_round p x"
proof (cases "x = 0")
  case True
  then show ?thesis by simp
next
  case False
  assume "0 \<le> x"
  define e where "e = \<lfloor>log 2 \<bar>x\<bar>\<rfloor> - int p + 1"
  have "0 \<le> x / 2 powr of_int e" using \<open>0 \<le> x\<close> by simp
  then have "round_half_even 0 \<le> round_half_even (x / 2 powr of_int e)"
    by (rule round_half_even_mono)
  then have "0 \<le> round_half_even (x / 2 powr of_int e)"
    using round_half_even_of_int [of 0] by simp
  with False show ?thesis by (simp add: float_round_def Let_def e_def)
qed

lemma float_round_mono:
  assumes "0 < p" and "0 \<le> x" and "x \<le> y"
  shows "float_round p x \<le> float_round p y"
proof (cases "x = 0")
  case True
  with assms show ?thesis by (simp add: float_round_nonneg)
next
  case False
  with assms have x0: "0 < x" and y0: "0 < y" by simp_all
  define kx where "kx = \<lfloor>log 2 x\<rfloor>"
  define ky where "ky = \<lfloor>log 2 y\<rfloor>"
  have bx: "2 powr of_int kx \<le> x" "x < 2 powr of_int (kx + 1)"
    using floor_log_eq_powr_iff [of x 2 kx] x0 by (simp_all add: kx_def)
  have by': "2 powr of_int ky \<le> y" "y < 2 powr of_int (ky + 1)"
    using floor_log_eq_powr_iff [of y 2 ky] y0 by (simp_all add: ky_def)
  have "log 2 x \<le> log 2 y" using x0 assms(3) by simp
  then have kle: "kx \<le> ky" unfolding kx_def ky_def by (rule floor_mono)
  show ?thesis
  proof (cases "kx = ky")
    case True
    define s :: real where "s = 2 powr of_int (kx - int p + 1)"
    have s0: "0 < s" by (simp add: s_def)
    have fx: "float_round p x = of_int (round_half_even (x / s)) * s"
      using float_round_eq [of kx x p] bx x0 by (simp add: s_def)
    have fy: "float_round p y = of_int (round_half_even (y / s)) * s"
      using float_round_eq [of ky y p] by' y0 True by (simp add: s_def)
    have "x / s \<le> y / s" using assms(3) s0 by (simp add: divide_right_mono)
    then have "round_half_even (x / s) \<le> round_half_even (y / s)"
      by (rule round_half_even_mono)
    then show ?thesis unfolding fx fy using s0 by (intro mult_right_mono) simp_all
  next
    case False
    with kle have "kx + 1 \<le> ky" by simp
    then have "(2::real) powr of_int (kx + 1) \<le> 2 powr of_int ky"
      by (intro powr_mono) simp_all
    moreover have "float_round p x \<le> 2 powr of_int (kx + 1)"
      using float_round_bounds(2) [OF assms(1) bx] .
    moreover have "2 powr of_int ky \<le> float_round p y"
      using float_round_bounds(1) [OF assms(1) by'] .
    ultimately show ?thesis by linarith
  qed
qed

lemma float_round_fix:
  assumes "x = of_int m * 2 powr of_int j" and "\<bar>m\<bar> < 2 ^ p"
  shows "float_round p x = x"
proof (cases "x = 0")
  case True
  then show ?thesis by simp
next
  case False
  define k where "k = \<lfloor>log 2 \<bar>x\<bar>\<rfloor>"
  define s :: real where "s = 2 powr of_int (k - int p + 1)"
  have s0: "0 < s" by (simp add: s_def)
  have pos: "0 < \<bar>x\<bar>" using False by simp
  have kx: "2 powr of_int k \<le> \<bar>x\<bar>" "\<bar>x\<bar> < 2 powr of_int (k + 1)"
    using floor_log_eq_powr_iff [of "\<bar>x\<bar>" 2 k] pos by (simp_all add: k_def)
  have ax: "\<bar>x\<bar> = of_int \<bar>m\<bar> * 2 powr of_int j"
    by (simp add: assms(1) abs_mult)
  have "real_of_int \<bar>m\<bar> < real_of_int (2 ^ p)"
    using assms(2) by (simp only: of_int_less_iff)
  then have mp: "real_of_int \<bar>m\<bar> < 2 ^ p" by simp
  have "\<bar>x\<bar> < 2 ^ p * 2 powr of_int j"
    unfolding ax using mp by (intro mult_strict_right_mono) simp_all
  also have "\<dots> = 2 powr (real p + of_int j)"
    by (simp add: powr_add powr_realpow)
  finally have "2 powr of_int k < 2 powr (real p + of_int j)"
    using kx(1) by linarith
  then have "real_of_int k < real p + of_int j" by simp
  then have d0: "0 \<le> j - (k - int p + 1)" by linarith
  define d where "d = nat (j - (k - int p + 1))"
  have jd: "j = (k - int p + 1) + int d" using d0 by (simp add: d_def)
  have "2 powr of_int j = s * 2 powr of_int (int d)"
    unfolding s_def by (subst jd) (simp add: powr_add)
  also have "2 powr of_int (int d) = (2 :: real) ^ d"
    by (simp add: powr_realpow)
  finally have pj: "2 powr of_int j = s * 2 ^ d" .
  have q: "x / s = of_int (m * 2 ^ d)"
    using s0 by (simp add: assms(1) pj)
  have "float_round p x = of_int (round_half_even (x / s)) * s"
    using float_round_eq [OF kx, of p] by (simp only: s_def)
  also have "\<dots> = of_int (m * 2 ^ d) * s"
    by (simp only: q round_half_even_of_int)
  also have "\<dots> = x"
    using s0 by (simp add: assms(1) pj)
  finally show ?thesis .
qed

lemma float_round_large:
  assumes "0 < p" and "2 ^ (n + p - 1) \<le> \<bar>x\<bar>" and "\<bar>x\<bar> < 2 ^ (n + p)"
  shows "float_round p x = of_int (round_half_even (x / 2 ^ n)) * 2 ^ n"
proof -
  define k where "k = int (n + p - 1)"
  have a: "2 powr of_int k = (2 :: real) ^ (n + p - 1)"
    unfolding k_def by (simp add: powr_realpow)
  have "k + 1 = int (n + p)" using assms(1) by (simp add: k_def)
  then have b: "2 powr of_int (k + 1) = (2 :: real) ^ (n + p)"
    by (simp only: of_int_of_nat_eq powr_realpow zero_less_numeral)
  have "k - int p + 1 = int n" using assms(1) by (simp add: k_def)
  then have c: "2 powr of_int (k - int p + 1) = (2 :: real) ^ n"
    by (simp only: of_int_of_nat_eq powr_realpow zero_less_numeral)
  show ?thesis
    using float_round_eq [of k x p] assms(2,3) by (simp only: a b c)
qed

lemma float_round_small:
  assumes "0 < p" and "2 ^ (p - 1) \<le> \<bar>x\<bar> * 2 ^ n" and "\<bar>x\<bar> * 2 ^ n < 2 ^ p"
  shows "float_round p x = of_int (round_half_even (x * 2 ^ n)) / 2 ^ n"
proof -
  define k where "k = int p - 1 - int n"
  have e: "2 powr of_int (k - int p + 1) = 1 / (2 :: real) ^ n"
  proof -
    have "k - int p + 1 = - int n" by (simp add: k_def)
    then have "2 powr of_int (k - int p + 1) = 2 powr (- real n)" by simp
    also have "\<dots> = 1 / (2 :: real) ^ n"
      by (simp add: powr_minus_divide powr_realpow)
    finally show ?thesis .
  qed
  have a: "2 powr of_int k = (2 :: real) ^ (p - 1) / 2 ^ n"
  proof -
    have "real_of_int k = real (p - 1) - real n" using assms(1) by (simp add: k_def of_nat_diff)
    then show ?thesis by (simp add: powr_diff powr_realpow)
  qed
  have b: "2 powr of_int (k + 1) = (2 :: real) ^ p / 2 ^ n"
  proof -
    have "real_of_int (k + 1) = real p - real n" by (simp add: k_def)
    then show ?thesis by (simp only: powr_diff) (simp add: powr_realpow)
  qed
  have h1: "2 powr of_int k \<le> \<bar>x\<bar>"
    unfolding a using assms(2) by (simp add: pos_divide_le_eq)
  have h2: "\<bar>x\<bar> < 2 powr of_int (k + 1)"
    unfolding b using assms(3) by (simp add: pos_less_divide_eq)
  have "float_round p x
      = of_int (round_half_even (x / (1 / 2 ^ n))) * (1 / 2 ^ n)"
    using float_round_eq [OF h1 h2, of p] by (simp only: e)
  then show ?thesis by simp
qed

lemma float_round_fix_nat:
  assumes "x = of_int m * 2 ^ j" and "\<bar>m\<bar> < 2 ^ p"
  shows "float_round p x = x"
proof -
  have "x = of_int m * 2 powr of_int (int j)"
    by (simp add: assms(1) powr_realpow)
  then show ?thesis using assms(2) by (rule float_round_fix)
qed

subsection \<open>Conversions and durations\<close>

lemma float_to_int64_of_int:
  "- (2 ^ 63) \<le> k \<Longrightarrow> k < 2 ^ 63 \<Longrightarrow> float_to_int64 (of_int k) = k"
  by (simp add: float_to_int64_def)

lemma int64_in_range: "- (2 ^ 63) \<le> x \<Longrightarrow> x < 2 ^ 63 \<Longrightarrow> int64 x = x"
  by (simp add: int64_def)

lemma math_Round_nonneg: "0 \<le> x \<Longrightarrow> math_Round x = of_int (round x)"
  by (simp add: math_Round_def round_def)

lemma float_to_int64_floor:
  "0 \<le> x \<Longrightarrow> x < 2 ^ 63 \<Longrightarrow> float_to_int64 x = \<lfloor>x\<rfloor>"
proof -
  assume a: "0 \<le> x" "x < 2 ^ 63"
  have "0 \<le> \<lfloor>x\<rfloor>" using a by simp
  moreover have "\<lfloor>x\<rfloor> < 2 ^ 63" using a by (simp add: floor_less_iff)
  ultimately show ?thesis using a by (simp add: float_to_int64_def)
qed

lemma float_to_int64_ceiling:
  "x < 0 \<Longrightarrow> - (2 ^ 63) < x \<Longrightarrow> float_to_int64 x = \<lceil>x\<rceil>"
proof -
  assume a: "x < 0" "- (2 ^ 63) < x"
  have "\<lceil>x\<rceil> \<le> 0" using a by (simp add: ceiling_le_iff)
  moreover have "- (2 ^ 63) \<le> \<lceil>x\<rceil>" using a by (simp add: le_ceiling_iff)
  ultimately show ?thesis using a by (simp add: float_to_int64_def)
qed

lemma round_half_even_eqI:
  assumes "\<bar>y - of_int N\<bar> < 1 / 2"
  shows "round_half_even y = N"
proof -
  have "\<bar>of_int (round_half_even y) - y\<bar> \<le> 1 / 2" by (rule round_half_even_close)
  with assms have "\<bar>real_of_int (round_half_even y) - of_int N\<bar> < 1" by linarith
  then have "\<bar>real_of_int (round_half_even y - N)\<bar> < 1" by simp
  then have "\<bar>round_half_even y - N\<bar> < 1"
    by (metis of_int_abs of_int_less_1_iff)
  then show ?thesis by simp
qed

lemma float32_error: "\<bar>float32 x - x\<bar> \<le> \<bar>x\<bar> / 2 ^ 24"
  using float_round_error [of 24 x] by (simp add: float32_def powr_minus_divide)

lemma float64_error: "\<bar>float64 x - x\<bar> \<le> \<bar>x\<bar> / 2 ^ 53"
  using float_round_error [of 53 x] by (simp add: float64_def powr_minus_divide)

lemma float32_mono: "0 \<le> x \<Longrightarrow> x \<le> y \<Longrightarrow> float32 x \<le> float32 y"
  unfolding float32_def by (rule float_round_mono) simp_all

lemma float64_mono: "0 \<le> x \<Longrightarrow> x \<le> y \<Longrightarrow> float64 x \<le> float64 y"
  unfolding float64_def by (rule float_round_mono) simp_all

lemma float32_nonneg: "0 \<le> x \<Longrightarrow> 0 \<le> float32 x"
  unfolding float32_def by (rule float_round_nonneg)

lemma float64_nonneg: "0 \<le> x \<Longrightarrow> 0 \<le> float64 x"
  unfolding float64_def by (rule float_round_nonneg)

lemma float32_fix: "x = of_int m * 2 ^ j \<Longrightarrow> \<bar>m\<bar> < 2 ^ 24 \<Longrightarrow> float32 x = x"
  unfolding float32_def by (rule float_round_fix_nat)

lemma float64_fix: "x = of_int m * 2 ^ j \<Longrightarrow> \<bar>m\<bar> < 2 ^ 53 \<Longrightarrow> float64 x = x"
  unfolding float64_def by (rule float_round_fix_nat)

lemma abs_diff_trans:
  "\<bar>x - y\<bar> \<le> c \<Longrightarrow> \<bar>y - z\<bar> \<le> d \<Longrightarrow> \<bar>x - z\<bar> \<le> c + d" for x :: real
  by linarith

lemma float32_product_error:
  "\<bar>float32 (float32 w * f) - w * f\<bar> \<le> \<bar>w * f\<bar> / 2 ^ 22"
proof -
  define a where "a = float32 w"
  have e1: "\<bar>a - w\<bar> \<le> \<bar>w\<bar> / 2 ^ 24" unfolding a_def by (rule float32_error)
  have e2: "\<bar>float32 (a * f) - a * f\<bar> \<le> \<bar>a * f\<bar> / 2 ^ 24" by (rule float32_error)
  have aw: "\<bar>a\<bar> \<le> 2 * \<bar>w\<bar>" using e1 by (simp add: abs_if split: if_splits) 
  have "\<bar>a\<bar> * \<bar>f\<bar> \<le> (2 * \<bar>w\<bar>) * \<bar>f\<bar>"
    using aw by (intro mult_right_mono) simp_all
  then have "\<bar>a * f\<bar> \<le> 2 * \<bar>w * f\<bar>"
    by (simp add: abs_mult)
  then have t1: "\<bar>float32 (a * f) - a * f\<bar> \<le> 2 * \<bar>w * f\<bar> / 2 ^ 24"
    using e2 by (simp add: field_simps)
  have "\<bar>a * f - w * f\<bar> = \<bar>a - w\<bar> * \<bar>f\<bar>"
    by (simp add: abs_mult [symmetric] left_diff_distrib)
  also have "\<dots> \<le> \<bar>w\<bar> / 2 ^ 24 * \<bar>f\<bar>"
    using e1 by (intro mult_right_mono) simp_all
  finally have t2: "\<bar>a * f - w * f\<bar> \<le> \<bar>w * f\<bar> / 2 ^ 24"
    by (simp add: abs_mult)
  have "\<bar>float32 (a * f) - w * f\<bar> \<le> 2 * \<bar>w * f\<bar> / 2 ^ 24 + \<bar>w * f\<bar> / 2 ^ 24"
    using t1 t2 by (rule abs_diff_trans)
  also have "\<dots> \<le> \<bar>w * f\<bar> / 2 ^ 22" by simp
  finally show ?thesis unfolding a_def .
qed

lemma float32_fix_frac: "x = of_int m / 2 ^ j \<Longrightarrow> \<bar>m\<bar> < 2 ^ 24 \<Longrightarrow> float32 x = x"
  unfolding float32_def
  by (rule float_round_fix [of x m "- int j"]) (simp_all add: powr_minus_divide powr_realpow)

lemma wholeNoteDuration_in_range:
  assumes "0 < b" and "round (float64 (240000 / b)) \<le> 9223372036854"
  shows "wholeNoteDuration b = round (float64 (240000 / b)) * Millisecond"
proof -
  let ?k = "round (float64 (240000 / b))"
  have q: "0 \<le> float64 (240000 / b)" using assms(1) by (intro float64_nonneg) simp
  then have k0: "0 \<le> ?k" by (simp add: round_def)
  have r: "math_Round (float64 (240000 / b)) = of_int ?k"
    using math_Round_nonneg [OF q] by simp
  have "float_to_int64 (of_int ?k) = ?k"
    using k0 assms(2) by (intro float_to_int64_of_int) simp_all
  moreover have "int64 (?k * Millisecond) = ?k * Millisecond"
    using k0 assms(2) by (intro int64_in_range) (simp_all add: Millisecond_def)
  ultimately show ?thesis
    using assms(1) by (simp add: wholeNoteDuration_def r)
qed

lemma float64_2000: "float64 2000 = 2000"
  by (rule float64_fix [of _ 2000 0]) simp_all

lemma wholeNoteDuration_120: "wholeNoteDuration 120 = 2000 * Millisecond"
proof -
  have r: "round (float64 (240000 / 120)) = 2000"
    by (simp add: float64_2000 round_def)
  show ?thesis
    using wholeNoteDuration_in_range [of 120] unfolding r by simp
qed

lemma float32_2000ms: "float32 2000000000 = 2000000000"
  by (rule float32_fix [of _ 15625000 7]) simp_all

lemma float32_1000ms: "float32 1000000000 = 1000000000"
  by (rule float32_fix [of _ 1953125 9]) simp_all

lemma float32_500ms: "float32 500000000 = 500000000"
  by (rule float32_fix [of _ 1953125 8]) simp_all

lemma actualDuration_eval:
  assumes "float32 (of_int whole) = a" and "float32 (a * DurationFactor n) = of_int d"
    and "- (2 ^ 63) \<le> d" and "d < 2 ^ 63"
  shows "actualDuration whole n = d"
  unfolding actualDuration_def assms(1) assms(2)
  using assms(3,4) by (rule float_to_int64_of_int)

lemma actualDuration_2000ms_whole:
  "DurationFactor n = 1 \<Longrightarrow> actualDuration (2000 * Millisecond) n = 2000 * Millisecond"
  by (rule actualDuration_eval [of _ 2000000000])
     (simp_all add: Millisecond_def float32_2000ms)

lemma actualDuration_2000ms_half:
  "actualDuration (2000 * Millisecond) half_d = 1000 * Millisecond"
  by (rule actualDuration_eval [of _ 2000000000])
     (simp_all add: Millisecond_def half_d_def float32_2000ms float32_1000ms)

lemma actualDuration_2000ms_quarter:
  "actualDuration (2000 * Millisecond) middle_c = 500 * Millisecond"
  by (rule actualDuration_eval [of _ 2000000000])
     (simp_all add: Millisecond_def middle_c_def float32_2000ms float32_500ms)

lemma float64_fix_frac: "x = of_int m / 2 ^ j \<Longrightarrow> \<bar>m\<bar> < 2 ^ 53 \<Longrightarrow> float64 x = x"
  unfolding float64_def
  by (rule float_round_fix [of x m "- int j"]) (simp_all add: powr_minus_divide powr_realpow)

text \<open>At 90 BPM the quotient is not a \<^verbatim>\<open>float64\<close>; it lies between two that are.\<close>

lemma round_between:
  "of_int k - 1 / 2 \<le> x \<Longrightarrow> x < of_int k + 1 / 2 \<Longrightarrow> round x = k" for x :: real
  unfolding round_def by (rule floor_unique) simp_all

lemma wholeNoteDuration_90: "wholeNoteDuration 90 = 2667 * Millisecond"
proof -
  have lo: "float64 (5333 / 2) = 5333 / 2"
    by (rule float64_fix_frac [of _ 5333 1]) simp_all
  have hi: "float64 2667 = 2667"
    by (rule float64_fix [of _ 2667 0]) simp_all
  have "float64 (5333 / 2) \<le> float64 (240000 / 90)"
    by (rule float64_mono) simp_all
  then have a: "5333 / 2 \<le> float64 (240000 / 90)" by (simp only: lo)
  have "float64 (240000 / 90) \<le> float64 2667"
    by (rule float64_mono) simp_all
  then have b: "float64 (240000 / 90) \<le> 2667" by (simp only: hi)
  have r: "round (float64 (240000 / 90)) = 2667"
    using a b by (intro round_between) simp_all
  show ?thesis
    using wholeNoteDuration_in_range [of 90] unfolding r by simp
qed

lemma float32_2667ms: "float32 2667000000 = 2667000064"
proof -
  have "round_half_even (2667000000 / 2 ^ 8) = 10417969"
    by (rule round_half_even_eqI) simp
  then show ?thesis
    unfolding float32_def using float_round_large [of 24 8 2667000000] by simp
qed

lemma float32_2667000064: "float32 2667000064 = 2667000064"
  by (rule float32_fix [of _ 10417969 8]) simp_all

lemma actualDuration_2667ms_whole:
  "DurationFactor n = 1 \<Longrightarrow> actualDuration (2667 * Millisecond) n = 2667000064"
  by (rule actualDuration_eval [of _ 2667000064])
     (simp_all add: Millisecond_def float32_2667ms float32_2667000064)

lemma float64_1502_5:
  "float64 (240000 / (5620132646469005 / 2 ^ 45)) = 3005 / 2"
proof -
  let ?x = "240000 / (5620132646469005 / 2 ^ 45) :: real"
  have r: "round_half_even (?x * 2 ^ 42) = 6608064882933760"
    by (rule round_half_even_eqI) simp
  have "float64 ?x = of_int (round_half_even (?x * 2 ^ 42)) / 2 ^ 42"
    unfolding float64_def by (rule float_round_small) simp_all
  then show ?thesis unfolding r by simp
qed

lemma wholeNoteDuration_1503:
  "wholeNoteDuration (5620132646469005 / 2 ^ 45) = 1503 * Millisecond"
proof -
  have r: "round (float64 (240000 / (5620132646469005 / 2 ^ 45))) = 1503"
    unfolding float64_1502_5 by (simp add: round_def)
  show ?thesis
    using wholeNoteDuration_in_range [of "5620132646469005 / 2 ^ 45"] unfolding r by simp
qed

lemma exact_round_1502: "round (4 * 60000 / (5620132646469005 / 2 ^ 45) :: real) = 1502"
  by (rule round_between) simp_all

lemma float64_overflow_quotient: "float64 257698037760000 = 257698037760000"
  by (rule float64_fix [of _ 257698037760000 0]) simp_all

lemma wholeNoteDuration_2_30: "wholeNoteDuration (1 / 2 ^ 30) = - 556379271933722624"
  by (simp add: wholeNoteDuration_def float64_overflow_quotient math_Round_def
      float_to_int64_def int64_def Millisecond_def)

lemma float64_8053063680000: "float64 8053063680000 = 8053063680000"
  by (rule float64_fix [of _ 8053063680000 0]) simp_all

lemma wholeNoteDuration_2_25: "wholeNoteDuration (1 / 2 ^ 25) = 8053063680000 * Millisecond"
proof -
  have r: "round (float64 (240000 / (1 / 2 ^ 25))) = 8053063680000"
    by (simp add: float64_8053063680000 round_def)
  show ?thesis
    using wholeNoteDuration_in_range [of "1 / 2 ^ 25"] unfolding r by simp
qed

lemma float64_1: "float64 1 = 1"
  by (rule float64_fix [of _ 1 0]) simp_all

lemma wholeNoteDuration_240000: "wholeNoteDuration 240000 = 1 * Millisecond"
proof -
  have r: "round (float64 (240000 / 240000)) = 1"
    by (simp add: float64_1 round_def)
  show ?thesis
    using wholeNoteDuration_in_range [of 240000] unfolding r by simp
qed

lemma float32_1ms: "float32 1000000 = 1000000"
  by (rule float32_fix [of _ 1000000 0]) simp_all

lemma float32_7812_5: "float32 (15625 / 2) = 15625 / 2"
  by (rule float32_fix_frac [of _ 15625 1]) simp_all

lemma actualDuration_128th: "actualDuration (1 * Millisecond) c_128th = 7812"
proof -
  have p: "float32 (float32 (of_int (1 * Millisecond)) * DurationFactor c_128th) = 15625 / 2"
    by (simp add: Millisecond_def c_128th_def float32_1ms float32_7812_5)
  have "float_to_int64 (15625 / 2) = 7812"
    by (simp add: float_to_int64_def)
  then show ?thesis
    by (simp only: actualDuration_def p)
qed

lemma float32_big: "2 ^ 62 \<le> float32 (of_int (8053063680000 * Millisecond))"
proof -
  have "float32 (2 ^ 62) = 2 ^ 62"
    by (rule float32_fix [of _ 1 62]) simp_all
  moreover have "float32 (2 ^ 62) \<le> float32 (of_int (8053063680000 * Millisecond))"
    by (rule float32_mono) (simp_all add: Millisecond_def)
  ultimately show ?thesis by simp
qed

lemma float32_product_big:
  "2 ^ 63 \<le> float32 (float32 (of_int (8053063680000 * Millisecond)) * DurationFactor breve_c)"
proof -
  have "float32 (2 ^ 63) = 2 ^ 63"
    by (rule float32_fix [of _ 1 63]) simp_all
  moreover have "float32 (2 ^ 63)
      \<le> float32 (float32 (of_int (8053063680000 * Millisecond)) * DurationFactor breve_c)"
    using float32_big by (intro float32_mono) (simp_all add: breve_c_def)
  ultimately show ?thesis by simp
qed

lemma actualDuration_breve:
  "actualDuration (8053063680000 * Millisecond) breve_c < 2 ^ 63"
  by (simp add: actualDuration_def float_to_int64_def Let_def)

lemma float_round_nonpos: "x \<le> 0 \<Longrightarrow> float_round p x \<le> 0"
proof (cases "x = 0")
  case True
  then show ?thesis by simp
next
  case False
  assume "x \<le> 0"
  define e where "e = \<lfloor>log 2 \<bar>x\<bar>\<rfloor> - int p + 1"
  have "x / 2 powr of_int e \<le> 0" using \<open>x \<le> 0\<close> by (simp add: divide_nonpos_pos)
  then have "round_half_even (x / 2 powr of_int e) \<le> round_half_even 0"
    by (rule round_half_even_mono)
  then have "round_half_even (x / 2 powr of_int e) \<le> 0"
    using round_half_even_of_int [of 0] by simp
  then have "real_of_int (round_half_even (x / 2 powr of_int e)) * 2 powr of_int e \<le> 0"
    by (simp add: mult_le_0_iff)
  with False show ?thesis by (simp add: float_round_def Let_def e_def)
qed

lemma float_to_int64_nonpos: "x \<le> 0 \<Longrightarrow> float_to_int64 x \<le> 0"
  by (auto simp: float_to_int64_def Let_def ceiling_le_iff)

lemma actualDuration_nonpos:
  "whole \<le> 0 \<Longrightarrow> 0 \<le> DurationFactor n \<Longrightarrow> actualDuration whole n \<le> 0"
proof -
  assume a: "whole \<le> 0" "0 \<le> DurationFactor n"
  have "float32 (of_int whole) \<le> 0"
    unfolding float32_def using a(1) by (intro float_round_nonpos) simp
  then have "float32 (of_int whole) * DurationFactor n \<le> 0"
    using a(2) by (simp add: mult_le_0_iff)
  then have "float32 (float32 (of_int whole) * DurationFactor n) \<le> 0"
    unfolding float32_def by (rule float_round_nonpos)
  then show ?thesis unfolding actualDuration_def by (rule float_to_int64_nonpos)
qed

lemma actualDuration_nonpos_factor:
  "0 \<le> whole \<Longrightarrow> DurationFactor n \<le> 0 \<Longrightarrow> actualDuration whole n \<le> 0"
proof -
  assume a: "0 \<le> whole" "DurationFactor n \<le> 0"
  have "0 \<le> float32 (of_int whole)"
    using a(1) by (intro float32_nonneg) simp
  then have "float32 (of_int whole) * DurationFactor n \<le> 0"
    using a(2) by (simp add: mult_le_0_iff)
  then have "float32 (float32 (of_int whole) * DurationFactor n) \<le> 0"
    unfolding float32_def by (rule float_round_nonpos)
  then show ?thesis unfolding actualDuration_def by (rule float_to_int64_nonpos)
qed

lemma actualDuration_floor:
  assumes "0 \<le> whole" and "0 \<le> DurationFactor n"
    and "float32 (float32 (of_int whole) * DurationFactor n) < 2 ^ 63"
  shows "actualDuration whole n = \<lfloor>float32 (float32 (of_int whole) * DurationFactor n)\<rfloor>"
proof -
  have "0 \<le> float32 (of_int whole)" using assms(1) by (intro float32_nonneg) simp
  then have "0 \<le> float32 (of_int whole) * DurationFactor n" using assms(2) by simp
  then have "0 \<le> float32 (float32 (of_int whole) * DurationFactor n)"
    by (rule float32_nonneg)
  then show ?thesis
    unfolding actualDuration_def using assms(3) by (rule float_to_int64_floor)
qed

lemma float32_product_mono:
  assumes "0 \<le> whole" and "0 \<le> f" and "f \<le> f'"
  shows "float32 (float32 (of_int whole) * f) \<le> float32 (float32 (of_int whole) * f')"
proof -
  have a: "0 \<le> float32 (of_int whole)" using assms(1) by (intro float32_nonneg) simp
  show ?thesis
    using a assms(2,3) by (intro float32_mono mult_left_mono) simp_all
qed

lemma groupDuration_max_factor:
  assumes "g \<noteq> []" and "\<forall>n\<in>set g. 0 \<le> DurationFactor n" and "0 \<le> whole"
    and "float32 (float32 (of_int whole) * Max (DurationFactor ` set g)) < 2 ^ 63"
  shows "groupDuration m whole g
      = \<lfloor>float32 (float32 (of_int whole) * Max (DurationFactor ` set g))\<rfloor>"
  using assms
proof (induction g rule: list_nonempty_induct)
  case (single n)
  then have d: "actualDuration whole n = \<lfloor>float32 (float32 (of_int whole) * DurationFactor n)\<rfloor>"
    by (intro actualDuration_floor) simp_all
  have "0 \<le> float32 (of_int whole) * DurationFactor n"
    using single by (simp add: float32_nonneg)
  then have "0 \<le> float32 (float32 (of_int whole) * DurationFactor n)"
    by (rule float32_nonneg)
  then have "0 \<le> \<lfloor>float32 (float32 (of_int whole) * DurationFactor n)\<rfloor>" by simp
  with d show ?case
    by (simp add: groupDuration_Cons groupDuration_Nil Sleep_def)
next
  case (cons n g)
  let ?F = "Max (DurationFactor ` set g)"
  let ?X = "\<lambda>f. float32 (float32 (real_of_int whole) * f)"
  have fin: "finite (DurationFactor ` set g)" "DurationFactor ` set g \<noteq> {}"
    using cons.hyps by simp_all
  have mx: "Max (DurationFactor ` set (n # g)) = max (DurationFactor n) ?F"
    using fin by simp
  have fn0: "0 \<le> DurationFactor n" using cons.prems(1) by simp
  obtain n' where n': "n' \<in> set g" using cons.hyps by (cases g) auto
  have "DurationFactor n' \<le> ?F" using fin n' by simp
  moreover have "0 \<le> DurationFactor n'" using cons.prems(1) n' by simp
  ultimately have F0: "0 \<le> ?F" by linarith
  have le1: "?X ?F \<le> ?X (max (DurationFactor n) ?F)"
    using cons.prems(2) F0 by (intro float32_product_mono) simp_all
  have le2: "?X (DurationFactor n) \<le> ?X (max (DurationFactor n) ?F)"
    using cons.prems(2) fn0 by (intro float32_product_mono) simp_all
  have bound: "?X (max (DurationFactor n) ?F) < 2 ^ 63"
    using cons.prems(3) mx by simp
  have ih: "groupDuration m whole g = \<lfloor>?X ?F\<rfloor>"
    using cons.prems le1 bound by (intro cons.IH) simp_all
  have dn: "actualDuration whole n = \<lfloor>?X (DurationFactor n)\<rfloor>"
    using cons.prems(2) fn0 le2 bound by (intro actualDuration_floor) simp_all
  have "0 \<le> float32 (real_of_int whole) * DurationFactor n"
    using cons.prems(2) fn0 by (simp add: float32_nonneg)
  then have "0 \<le> ?X (DurationFactor n)" by (rule float32_nonneg)
  then have n0: "0 \<le> \<lfloor>?X (DurationFactor n)\<rfloor>" by simp
  have "max \<lfloor>?X (DurationFactor n)\<rfloor> \<lfloor>?X ?F\<rfloor> = \<lfloor>?X (max (DurationFactor n) ?F)\<rfloor>"
  proof (cases "DurationFactor n \<le> ?F")
    case True
    then have "?X (DurationFactor n) \<le> ?X ?F"
      using cons.prems(2) fn0 by (intro float32_product_mono)
    then have "\<lfloor>?X (DurationFactor n)\<rfloor> \<le> \<lfloor>?X ?F\<rfloor>" by (rule floor_mono)
    with True show ?thesis by (simp add: max_def)
  next
    case False
    then have "?X ?F \<le> ?X (DurationFactor n)"
      using cons.prems(2) F0 by (intro float32_product_mono) simp_all
    then have "\<lfloor>?X ?F\<rfloor> \<le> \<lfloor>?X (DurationFactor n)\<rfloor>" by (rule floor_mono)
    with False show ?thesis by (simp add: max_def)
  qed
  then show ?case
    using n0 by (simp only: groupDuration_Cons ih dn mx Sleep_def)
qed

lemma differs_from_product:
  "d = dv \<Longrightarrow> f = fv \<Longrightarrow> w = wv \<Longrightarrow> real_of_int dv \<noteq> fv * real_of_int wv
     \<Longrightarrow> real_of_int d \<noteq> f * real_of_int w"
  by simp

lemma below_product:
  "d < 2 ^ 63 \<Longrightarrow> f = fv \<Longrightarrow> w = wv \<Longrightarrow> 2 ^ 63 \<le> fv * real_of_int wv
     \<Longrightarrow> real_of_int d \<noteq> f * real_of_int w"
proof -
  assume a: "d < 2 ^ 63" "f = fv" "w = wv" "2 ^ 63 \<le> fv * real_of_int wv"
  have "real_of_int d < real_of_int (2 ^ 63)" using a(1) by (simp only: of_int_less_iff)
  then have "real_of_int d < 2 ^ 63" by simp
  with a show ?thesis by simp
qed

lemma groupDuration_single:
  "groupDuration m whole [n] = max 0 (actualDuration whole n)"
  by (simp add: groupDuration_Cons groupDuration_Nil Sleep_def max.commute)

text \<open>
  C1. On an enabled device \<^verbatim>\<open>Play\<close> returns at the instant \<open>beginAt\<close> plus the sum of the
  durations of the groups of the sequence, taken in their order. So playing a sequence is
  playing its first part and then, from the instant at which that returns, the rest.
\<close>

theorem Play_endingAt:
  "enabled m \<Longrightarrow>
   fst (Play m seq ech beginAt)
     = beginAt + (\<Sum>g\<leftarrow>Notes seq. groupDuration m (wholeNoteDuration (bpm m)) g) \<and>
   (Notes seq = gs1 @ gs2 \<longrightarrow>
      fst (Play m seq ech beginAt)
        = fst (Play m \<lparr>Notes = gs2\<rparr> ech (fst (Play m \<lparr>Notes = gs1\<rparr> ech beginAt))))"
  by (simp add: Play_def split_beta Let_def PlayGroups_end)

theorem Play_endingAt_witness:
  "enabled opened_midi \<and>
   fst (Play opened_midi \<lparr>Notes = [[whole_c, whole_e, whole_g], [half_d]]\<rparr> True 1000)
     = 1000 + 3000 * Millisecond \<and>
   fst (Play opened_midi \<lparr>Notes = [[whole_c, whole_e, whole_g], [half_d]]\<rparr> True 1000)
     = fst (Play opened_midi \<lparr>Notes = [[half_d]]\<rparr> True
         (fst (Play opened_midi \<lparr>Notes = [[whole_c, whole_e, whole_g]]\<rparr> True 1000)))"
proof -
  have e: "enabled opened_midi" by (simp add: opened_midi_def)
  have b: "bpm opened_midi = 120" by (simp add: opened_midi_def)
  have d: "actualDuration (2000 * Millisecond) whole_c = 2000 * Millisecond"
    "actualDuration (2000 * Millisecond) whole_e = 2000 * Millisecond"
    "actualDuration (2000 * Millisecond) whole_g = 2000 * Millisecond"
    by (rule actualDuration_2000ms_whole, simp add: whole_c_def whole_e_def whole_g_def)+
  have g1: "groupDuration opened_midi (2000 * Millisecond) [whole_c, whole_e, whole_g]
              = 2000 * Millisecond"
    unfolding groupDuration_Cons groupDuration_Nil Sleep_def d
    by (simp add: Millisecond_def)
  have g2: "groupDuration opened_midi (2000 * Millisecond) [half_d] = 1000 * Millisecond"
    unfolding groupDuration_Cons groupDuration_Nil Sleep_def actualDuration_2000ms_half
    by (simp add: Millisecond_def)
  show ?thesis
    using Play_endingAt [OF e, of "\<lparr>Notes = [[whole_c, whole_e, whole_g], [half_d]]\<rparr>" True 1000
        "[[whole_c, whole_e, whole_g]]" "[[half_d]]"] e
    by (simp add: b wholeNoteDuration_120 g1 g2)
qed

lemma PlayGroup_writes_within:
  "\<forall>x\<in>#snd (PlayGroup m whole t g). t \<le> fst x \<and> fst x \<le> fst (PlayGroup m whole t g)"
proof (induction g)
  case Nil
  then show ?case by simp
next
  case (Cons n g)
  then show ?case
    by (auto simp: PlayNote_def Let_def split_beta Sleep_def)
qed

lemma PlayGroups_next:
  "fst (PlayGroups m ech whole t (g # gs))
     = fst (PlayGroups m ech whole (t + groupDuration m whole g) gs)"
  by (simp add: split_beta Let_def PlayGroup_shift)

text \<open>
  C4. Take a group that is not empty, of notes with duration factors that are not negative,
  played with a whole-note duration \<open>w\<close> that is not negative, and let \<open>x\<close> be the \<^verbatim>\<open>float32\<close>
  product of the greatest factor and the \<^verbatim>\<open>float32\<close> conversion of \<open>w\<close>, below \<open>2^63\<close> so that
  its conversion to a \<^verbatim>\<open>time.Duration\<close> is defined. The group takes \<open>x\<close> with its fraction
  dropped, the duration of its longest note; \<open>x\<close> is within a relative error of \<open>2^-22\<close> of the
  greatest factor times \<open>w\<close>. Every write of the group is made between the instant at which
  the group starts and the instant at which it is done, and the next group starts at that
  instant: \<^verbatim>\<open>Play\<close> has waited for every note of the group.
\<close>

theorem group_waits_for_longest_note:
  assumes "g \<noteq> []" and "\<forall>n\<in>set g. 0 \<le> DurationFactor n" and "0 \<le> whole"
    and "float32 (float32 (of_int whole) * Max (DurationFactor ` set g)) < 2 ^ 63"
  shows "groupDuration m whole g
      = \<lfloor>float32 (float32 (of_int whole) * Max (DurationFactor ` set g))\<rfloor> \<and>
    \<bar>float32 (float32 (of_int whole) * Max (DurationFactor ` set g))
       - of_int whole * Max (DurationFactor ` set g)\<bar>
      \<le> \<bar>of_int whole * Max (DurationFactor ` set g)\<bar> / 2 ^ 22 \<and>
    (\<forall>x\<in>#snd (PlayGroup m whole t g). t \<le> fst x \<and> fst x \<le> t + groupDuration m whole g) \<and>
    fst (PlayGroups m ech whole t (g # gs))
      = fst (PlayGroups m ech whole (t + groupDuration m whole g) gs)"
  using groupDuration_max_factor [OF assms, of m] PlayGroup_writes_within [of m whole t g]
    PlayGroups_next [of m ech whole t g gs]
    float32_product_error [of "of_int whole" "Max (DurationFactor ` set g)"]
  by (simp only: PlayGroup_shift)

theorem group_waits_for_longest_note_witness:
  "[whole_c, middle_c, half_d] \<noteq> [] \<and>
   0 \<le> DurationFactor whole_c \<and> 0 \<le> DurationFactor middle_c \<and> 0 \<le> DurationFactor half_d \<and>
   (0 :: int) \<le> 2000 * Millisecond \<and>
   Max (DurationFactor ` set [whole_c, middle_c, half_d]) = 1 \<and>
   float32 (float32 (of_int (2000 * Millisecond))
       * Max (DurationFactor ` set [whole_c, middle_c, half_d])) = 2000000000 \<and>
   groupDuration opened_midi (2000 * Millisecond) [whole_c, middle_c, half_d] = 2000 * Millisecond \<and>
   snd (PlayGroup opened_midi (2000 * Millisecond) 1000 [whole_c, middle_c, half_d])
     = {#(1000, WriteShort noteOn 60 100), (1000 + 2000 * Millisecond, WriteShort noteOff 60 100),
         (1000, WriteShort noteOn 60 100), (1000 + 500 * Millisecond, WriteShort noteOff 60 100),
         (1000, WriteShort noteOn 62 100), (1000 + 1000 * Millisecond, WriteShort noteOff 62 100)#} \<and>
   fst (PlayGroups opened_midi False (2000 * Millisecond) 1000 [[whole_c, middle_c, half_d], [half_d]])
     = 1000 + 3000 * Millisecond"
proof -
  let ?g = "[whole_c, middle_c, half_d]"
  have h1: "?g \<noteq> []" by simp
  have h2: "\<forall>n\<in>set ?g. 0 \<le> DurationFactor n"
    by (simp add: whole_c_def middle_c_def half_d_def)
  have h3: "(0 :: int) \<le> 2000 * Millisecond" by (simp add: Millisecond_def)
  have mx: "Max (DurationFactor ` set ?g) = 1"
    by (simp add: whole_c_def middle_c_def half_d_def)
  have x: "float32 (float32 (of_int (2000 * Millisecond)) * Max (DurationFactor ` set ?g))
      = 2000000000"
    unfolding mx by (simp add: Millisecond_def float32_2000ms)
  have h4: "float32 (float32 (of_int (2000 * Millisecond)) * Max (DurationFactor ` set ?g)) < 2 ^ 63"
    unfolding x by simp
  have dc: "actualDuration (2000 * Millisecond) whole_c = 2000 * Millisecond"
    by (rule actualDuration_2000ms_whole) (simp add: whole_c_def)
  have w: "snd (PlayGroup opened_midi (2000 * Millisecond) 1000 ?g)
     = {#(1000, WriteShort noteOn 60 100), (1000 + 2000 * Millisecond, WriteShort noteOff 60 100),
         (1000, WriteShort noteOn 60 100), (1000 + 500 * Millisecond, WriteShort noteOff 60 100),
         (1000, WriteShort noteOn 62 100), (1000 + 1000 * Millisecond, WriteShort noteOff 62 100)#}"
    by (simp add: PlayNote_def Let_def Sleep_def dc actualDuration_2000ms_quarter
        actualDuration_2000ms_half)
       (simp add: Millisecond_def whole_c_def middle_c_def half_d_def)
  have g2: "groupDuration opened_midi (2000 * Millisecond) [half_d] = 1000 * Millisecond"
    unfolding groupDuration_Cons groupDuration_Nil Sleep_def actualDuration_2000ms_half
    by (simp add: Millisecond_def)
  have p: "fst (PlayGroups opened_midi False (2000 * Millisecond)
                 (1000 + 2000 * Millisecond) [[half_d]]) = 1000 + 3000 * Millisecond"
    unfolding PlayGroups_end by (simp add: g2)
  note T = group_waits_for_longest_note [OF h1 h2 h3 h4, of opened_midi 1000 False "[[half_d]]"]
  from T have "groupDuration opened_midi (2000 * Millisecond) ?g
      = \<lfloor>float32 (float32 (of_int (2000 * Millisecond)) * Max (DurationFactor ` set ?g))\<rfloor>"
    by (rule conjunct1)
  then have a: "groupDuration opened_midi (2000 * Millisecond) ?g = 2000 * Millisecond"
    unfolding x by (simp add: Millisecond_def)
  from T have "fst (PlayGroups opened_midi False (2000 * Millisecond) 1000 [?g, [half_d]])
      = fst (PlayGroups opened_midi False (2000 * Millisecond)
          (1000 + groupDuration opened_midi (2000 * Millisecond) ?g) [[half_d]])"
    by (rule conjunct2 [THEN conjunct2, THEN conjunct2])
  then have c: "fst (PlayGroups opened_midi False (2000 * Millisecond) 1000 [?g, [half_d]])
      = 1000 + 3000 * Millisecond"
    by (simp only: a p)
  have f: "0 \<le> DurationFactor whole_c" "0 \<le> DurationFactor middle_c"
    "0 \<le> DurationFactor half_d"
    using h2 by simp_all
  from h1 f h3 mx x a w c show ?thesis by (intro conjI)
qed

text \<open>
  The duration of a group is not always the greatest factor times the whole-note duration.
  At a BPM of \<open>2^-30\<close> the whole-note duration has wrapped to a negative number and a group
  of one whole note takes no time. At 90 BPM the whole note of 2667000000 ns is not a
  \<^verbatim>\<open>float32\<close> and the group takes 2667000064 ns. At 240000 BPM a note of factor 1/128 is due
  7812.5 ns and the group takes 7812. At a BPM of \<open>2^-25\<close> twice the whole-note duration is
  beyond any \<^verbatim>\<open>time.Duration\<close>. At 120 BPM a note with the factor -1 sleeps for no time.
\<close>

theorem group_duration_not_max_product:
  "wholeNoteDuration (1 / 2 ^ 30) = - 556379271933722624 \<and>
   groupDuration opened_midi (wholeNoteDuration (1 / 2 ^ 30)) [whole_c] = 0 \<and>
   Max (DurationFactor ` set [whole_c]) = 1 \<and>
   wholeNoteDuration 90 = 2667000000 \<and>
   groupDuration opened_midi (wholeNoteDuration 90) [whole_c] = 2667000064 \<and>
   wholeNoteDuration 240000 = 1000000 \<and>
   Max (DurationFactor ` set [c_128th]) = 1 / 128 \<and>
   groupDuration opened_midi (wholeNoteDuration 240000) [c_128th] = 7812 \<and>
   wholeNoteDuration (1 / 2 ^ 25) = 8053063680000000000 \<and>
   Max (DurationFactor ` set [breve_c]) = 2 \<and>
   groupDuration opened_midi (wholeNoteDuration (1 / 2 ^ 25)) [breve_c] < 2 ^ 63 \<and>
   wholeNoteDuration 120 = 2000000000 \<and>
   Max (DurationFactor ` set [negative_c]) = - 1 \<and>
   groupDuration opened_midi (wholeNoteDuration 120) [negative_c] = 0 \<and>
   real_of_int (groupDuration opened_midi (wholeNoteDuration 120) [negative_c])
     \<noteq> Max (DurationFactor ` set [negative_c]) * of_int (wholeNoteDuration 120) \<and>
   real_of_int (groupDuration opened_midi (wholeNoteDuration (1 / 2 ^ 30)) [whole_c])
     \<noteq> Max (DurationFactor ` set [whole_c]) * of_int (wholeNoteDuration (1 / 2 ^ 30)) \<and>
   real_of_int (groupDuration opened_midi (wholeNoteDuration 90) [whole_c])
     \<noteq> Max (DurationFactor ` set [whole_c]) * of_int (wholeNoteDuration 90) \<and>
   real_of_int (groupDuration opened_midi (wholeNoteDuration 240000) [c_128th])
     \<noteq> Max (DurationFactor ` set [c_128th]) * of_int (wholeNoteDuration 240000) \<and>
   real_of_int (groupDuration opened_midi (wholeNoteDuration (1 / 2 ^ 25)) [breve_c])
     \<noteq> Max (DurationFactor ` set [breve_c]) * of_int (wholeNoteDuration (1 / 2 ^ 25))"
proof -
  have f: "DurationFactor whole_c = 1" by (simp add: whole_c_def)
  have a1: "wholeNoteDuration (1 / 2 ^ 30) = - 556379271933722624"
    by (rule wholeNoteDuration_2_30)
  have "actualDuration (- 556379271933722624) whole_c \<le> 0"
    by (rule actualDuration_nonpos) (simp_all add: f)
  then have a2: "groupDuration opened_midi (wholeNoteDuration (1 / 2 ^ 30)) [whole_c] = 0"
    unfolding a1 groupDuration_single by simp
  have a3: "Max (DurationFactor ` set [whole_c]) = 1" by (simp add: f)
  have b1: "wholeNoteDuration 90 = 2667000000"
    using wholeNoteDuration_90 by (simp add: Millisecond_def)
  have "actualDuration (2667 * Millisecond) whole_c = 2667000064"
    using f by (rule actualDuration_2667ms_whole)
  then have b2: "groupDuration opened_midi (wholeNoteDuration 90) [whole_c] = 2667000064"
    unfolding wholeNoteDuration_90 groupDuration_single by simp
  have c1: "wholeNoteDuration 240000 = 1000000"
    using wholeNoteDuration_240000 by (simp add: Millisecond_def)
  have c2: "Max (DurationFactor ` set [c_128th]) = 1 / 128" by (simp add: c_128th_def)
  have c3: "groupDuration opened_midi (wholeNoteDuration 240000) [c_128th] = 7812"
    unfolding wholeNoteDuration_240000 groupDuration_single actualDuration_128th by simp
  have d1: "wholeNoteDuration (1 / 2 ^ 25) = 8053063680000000000"
    using wholeNoteDuration_2_25 by (simp add: Millisecond_def)
  have d2: "Max (DurationFactor ` set [breve_c]) = 2" by (simp add: breve_c_def)
  have d3: "groupDuration opened_midi (wholeNoteDuration (1 / 2 ^ 25)) [breve_c] < 2 ^ 63"
    unfolding wholeNoteDuration_2_25 groupDuration_single
    using actualDuration_breve by simp
  have n1: "real_of_int (groupDuration opened_midi (wholeNoteDuration (1 / 2 ^ 30)) [whole_c])
     \<noteq> Max (DurationFactor ` set [whole_c]) * of_int (wholeNoteDuration (1 / 2 ^ 30))"
    by (rule differs_from_product [OF a2 a3 a1]) simp
  have n2: "real_of_int (groupDuration opened_midi (wholeNoteDuration 90) [whole_c])
     \<noteq> Max (DurationFactor ` set [whole_c]) * of_int (wholeNoteDuration 90)"
    by (rule differs_from_product [OF b2 a3 b1]) simp
  have n3: "real_of_int (groupDuration opened_midi (wholeNoteDuration 240000) [c_128th])
     \<noteq> Max (DurationFactor ` set [c_128th]) * of_int (wholeNoteDuration 240000)"
    by (rule differs_from_product [OF c3 c2 c1]) simp
  have n4: "real_of_int (groupDuration opened_midi (wholeNoteDuration (1 / 2 ^ 25)) [breve_c])
     \<noteq> Max (DurationFactor ` set [breve_c]) * of_int (wholeNoteDuration (1 / 2 ^ 25))"
    by (rule below_product [OF d3 d2 d1]) simp
  have e1: "wholeNoteDuration 120 = 2000000000"
    using wholeNoteDuration_120 by (simp add: Millisecond_def)
  have e2: "Max (DurationFactor ` set [negative_c]) = - 1" by (simp add: negative_c_def)
  have "actualDuration (2000 * Millisecond) negative_c \<le> 0"
    by (rule actualDuration_nonpos_factor) (simp_all add: Millisecond_def negative_c_def)
  then have e3: "groupDuration opened_midi (wholeNoteDuration 120) [negative_c] = 0"
    unfolding wholeNoteDuration_120 groupDuration_single by simp
  have n5: "real_of_int (groupDuration opened_midi (wholeNoteDuration 120) [negative_c])
     \<noteq> Max (DurationFactor ` set [negative_c]) * of_int (wholeNoteDuration 120)"
    by (rule differs_from_product [OF e3 e2 e1]) simp
  from a1 a2 a3 b1 b2 c1 c2 c3 d1 d2 d3 e1 e2 e3 n5 n1 n2 n3 n4 show ?thesis
    by (intro conjI)
qed

text \<open>
  C3. Let \<open>q\<close> be the \<^verbatim>\<open>float64\<close> quotient \<open>4 * 60000 / bpm\<close> for a BPM above zero; it is within
  a relative error of \<open>2^-53\<close> of the exact quotient. If \<open>round q\<close> is at most 9223372036854 (the
  most milliseconds that fit the signed 64-bit count of nanoseconds of a \<^verbatim>\<open>time.Duration\<close>),
  the whole-note duration that \<^verbatim>\<open>Play\<close> computes is \<open>round q\<close> milliseconds. Let \<open>x\<close> be the
  \<^verbatim>\<open>float32\<close> product of the duration factor of a note and the \<^verbatim>\<open>float32\<close> conversion of the
  whole-note duration; it is within a relative error of \<open>2^-22\<close> of the factor times the
  whole-note duration. If \<open>x\<close> is below \<open>2^63\<close> in magnitude, the actual duration of the note is
  \<open>x\<close> with its fraction dropped. At 120 BPM the whole note lasts 2000 ms and a note of factor
  1/4 lasts 500 ms.
\<close>

theorem wholeNoteDuration_formula:
  assumes "0 < b" and "round (float64 (4 * 60000 / b)) \<le> 9223372036854"
  shows "wholeNoteDuration b = round (float64 (4 * 60000 / b)) * Millisecond \<and>
    \<bar>float64 (4 * 60000 / b) - 4 * 60000 / b\<bar> \<le> (4 * 60000 / b) / 2 ^ 53 \<and>
    \<bar>float32 (float32 (of_int (wholeNoteDuration b)) * DurationFactor n)
       - of_int (wholeNoteDuration b) * DurationFactor n\<bar>
      \<le> \<bar>of_int (wholeNoteDuration b) * DurationFactor n\<bar> / 2 ^ 22 \<and>
    (\<bar>float32 (float32 (of_int (wholeNoteDuration b)) * DurationFactor n)\<bar> < 2 ^ 63 \<longrightarrow>
       actualDuration (wholeNoteDuration b) n
         = (if float32 (float32 (of_int (wholeNoteDuration b)) * DurationFactor n) < 0
            then \<lceil>float32 (float32 (of_int (wholeNoteDuration b)) * DurationFactor n)\<rceil>
            else \<lfloor>float32 (float32 (of_int (wholeNoteDuration b)) * DurationFactor n)\<rfloor>)) \<and>
    wholeNoteDuration 120 = 2000 * Millisecond \<and>
    actualDuration (wholeNoteDuration 120) middle_c = 500 * Millisecond"
proof -
  have r: "round (float64 (240000 / b)) \<le> 9223372036854" using assms(2) by simp
  have "wholeNoteDuration b = round (float64 (240000 / b)) * Millisecond"
    using assms(1) r by (rule wholeNoteDuration_in_range)
  then have w: "wholeNoteDuration b = round (float64 (4 * 60000 / b)) * Millisecond" by simp
  have "\<bar>float64 (240000 / b) - 240000 / b\<bar> \<le> \<bar>240000 / b\<bar> / 2 ^ 53"
    by (rule float64_error)
  then have q: "\<bar>float64 (4 * 60000 / b) - 4 * 60000 / b\<bar> \<le> (4 * 60000 / b) / 2 ^ 53"
    using assms(1) by simp
  have t: "actualDuration whole n
         = (if float32 (float32 (of_int whole) * DurationFactor n) < 0
            then \<lceil>float32 (float32 (of_int whole) * DurationFactor n)\<rceil>
            else \<lfloor>float32 (float32 (of_int whole) * DurationFactor n)\<rfloor>)"
    if "\<bar>float32 (float32 (of_int whole) * DurationFactor n)\<bar> < 2 ^ 63" for whole
  proof (cases "float32 (float32 (of_int whole) * DurationFactor n) < 0")
    case True
    with that show ?thesis
      unfolding actualDuration_def by (simp add: float_to_int64_ceiling)
  next
    case False
    with that show ?thesis
      unfolding actualDuration_def by (simp add: float_to_int64_floor)
  qed
  have e: "actualDuration (wholeNoteDuration 120) middle_c = 500 * Millisecond"
    unfolding wholeNoteDuration_120 by (rule actualDuration_2000ms_quarter)
  from w q float32_product_error [of "of_int (wholeNoteDuration b)" "DurationFactor n"]
    t [of "wholeNoteDuration b"] wholeNoteDuration_120 e
  show ?thesis by blast
qed

theorem wholeNoteDuration_formula_witness:
  "(0 :: real) < 120 \<and> round (float64 (4 * 60000 / 120)) \<le> 9223372036854 \<and>
   float64 (4 * 60000 / 120) = 2000 \<and>
   wholeNoteDuration 120 = 2000 * Millisecond \<and>
   DurationFactor middle_c = 1 / 4 \<and>
   float32 (float32 (of_int (wholeNoteDuration 120)) * DurationFactor middle_c) = 500000000 \<and>
   \<bar>float32 (float32 (of_int (wholeNoteDuration 120)) * DurationFactor middle_c)\<bar> < 2 ^ 63 \<and>
   actualDuration (wholeNoteDuration 120) middle_c = 500 * Millisecond"
proof -
  have h1: "(0 :: real) < 120" by simp
  have v: "float64 (4 * 60000 / 120) = 2000" by (simp add: float64_2000)
  have h2: "round (float64 (4 * 60000 / 120)) \<le> 9223372036854"
    unfolding v by (simp add: round_def)
  note T = wholeNoteDuration_formula [OF h1 h2, of middle_c]
  from T have w: "wholeNoteDuration 120 = 2000 * Millisecond"
    unfolding v by (simp add: round_def)
  have f: "DurationFactor middle_c = 1 / 4" by (simp add: middle_c_def)
  have p: "float32 (float32 (of_int (wholeNoteDuration 120)) * DurationFactor middle_c) = 500000000"
    unfolding w f by (simp add: Millisecond_def float32_2000ms float32_500ms)
  have h3: "\<bar>float32 (float32 (of_int (wholeNoteDuration 120)) * DurationFactor middle_c)\<bar> < 2 ^ 63"
    unfolding p by simp
  from T h3 have "actualDuration (wholeNoteDuration 120) middle_c
      = (if float32 (float32 (of_int (wholeNoteDuration 120)) * DurationFactor middle_c) < 0
         then \<lceil>float32 (float32 (of_int (wholeNoteDuration 120)) * DurationFactor middle_c)\<rceil>
         else \<lfloor>float32 (float32 (of_int (wholeNoteDuration 120)) * DurationFactor middle_c)\<rfloor>)"
    by blast
  then have a: "actualDuration (wholeNoteDuration 120) middle_c = 500 * Millisecond"
    unfolding p by (simp add: Millisecond_def)
  from h1 h2 v w f p h3 a show ?thesis by (intro conjI)
qed

text \<open>
  Each of these conditions is needed. At a BPM of \<open>2^-30\<close> the multiplication by
  \<^verbatim>\<open>time.Millisecond\<close> wraps and the whole-note duration comes out negative. At the BPM
  \<open>5620132646469005 / 2^45\<close> (about 159.73) the exact quotient is just below 1502.5 and rounds
  to 1502, the \<^verbatim>\<open>float64\<close> quotient is 1502.5 and rounds to 1503. At 90 BPM a whole note is
  due 2667000000 ns and lasts 2667000064, the nearest \<^verbatim>\<open>float32\<close>. At 240000 BPM a note of
  factor 1/128 is due 7812.5 ns and lasts 7812. At a BPM of \<open>2^-25\<close> a note of factor 2 is due
  more nanoseconds than a \<^verbatim>\<open>time.Duration\<close> holds.
\<close>

theorem note_timing_not_exact:
  "(0 :: real) < 1 / 2 ^ 30 \<and>
   wholeNoteDuration (1 / 2 ^ 30) = - 556379271933722624 \<and>
   round (4 * 60000 / (1 / 2 ^ 30 :: real)) * Millisecond = 257698037760000000000 \<and>
   (0 :: real) < 5620132646469005 / 2 ^ 45 \<and>
   wholeNoteDuration (5620132646469005 / 2 ^ 45) = 1503 * Millisecond \<and>
   round (4 * 60000 / (5620132646469005 / 2 ^ 45) :: real) = 1502 \<and>
   wholeNoteDuration 90 = 2667000000 \<and>
   DurationFactor whole_c = 1 \<and>
   actualDuration (wholeNoteDuration 90) whole_c = 2667000064 \<and>
   wholeNoteDuration 240000 = 1000000 \<and>
   DurationFactor c_128th = 1 / 128 \<and>
   actualDuration (wholeNoteDuration 240000) c_128th = 7812 \<and>
   wholeNoteDuration (1 / 2 ^ 25) = 8053063680000000000 \<and>
   DurationFactor breve_c = 2 \<and>
   actualDuration (wholeNoteDuration (1 / 2 ^ 25)) breve_c < 2 ^ 63 \<and>
   wholeNoteDuration (1 / 2 ^ 30) \<noteq> round (4 * 60000 / (1 / 2 ^ 30 :: real)) * Millisecond \<and>
   wholeNoteDuration (5620132646469005 / 2 ^ 45)
     \<noteq> round (4 * 60000 / (5620132646469005 / 2 ^ 45) :: real) * Millisecond \<and>
   real_of_int (actualDuration (wholeNoteDuration 90) whole_c)
     \<noteq> DurationFactor whole_c * of_int (wholeNoteDuration 90) \<and>
   real_of_int (actualDuration (wholeNoteDuration 240000) c_128th)
     \<noteq> DurationFactor c_128th * of_int (wholeNoteDuration 240000) \<and>
   real_of_int (actualDuration (wholeNoteDuration (1 / 2 ^ 25)) breve_c)
     \<noteq> DurationFactor breve_c * of_int (wholeNoteDuration (1 / 2 ^ 25))"
proof -
  have a1: "(0 :: real) < 1 / 2 ^ 30" by simp
  have a2: "wholeNoteDuration (1 / 2 ^ 30) = - 556379271933722624"
    by (rule wholeNoteDuration_2_30)
  have a3: "round (4 * 60000 / (1 / 2 ^ 30 :: real)) * Millisecond = 257698037760000000000"
    by (simp add: round_def Millisecond_def)
  have b1: "(0 :: real) < 5620132646469005 / 2 ^ 45" by simp
  have b2: "wholeNoteDuration (5620132646469005 / 2 ^ 45) = 1503 * Millisecond"
    by (rule wholeNoteDuration_1503)
  have b3: "round (4 * 60000 / (5620132646469005 / 2 ^ 45) :: real) = 1502"
    by (rule exact_round_1502)
  have c1: "wholeNoteDuration 90 = 2667000000"
    using wholeNoteDuration_90 by (simp add: Millisecond_def)
  have c2: "DurationFactor whole_c = 1" by (simp add: whole_c_def)
  have c3: "actualDuration (wholeNoteDuration 90) whole_c = 2667000064"
    unfolding wholeNoteDuration_90 using c2 by (rule actualDuration_2667ms_whole)
  have d1: "wholeNoteDuration 240000 = 1000000"
    using wholeNoteDuration_240000 by (simp add: Millisecond_def)
  have d2: "DurationFactor c_128th = 1 / 128" by (simp add: c_128th_def)
  have d3: "actualDuration (wholeNoteDuration 240000) c_128th = 7812"
    unfolding wholeNoteDuration_240000 by (rule actualDuration_128th)
  have e1: "wholeNoteDuration (1 / 2 ^ 25) = 8053063680000000000"
    using wholeNoteDuration_2_25 by (simp add: Millisecond_def)
  have e2: "DurationFactor breve_c = 2" by (simp add: breve_c_def)
  have e3: "actualDuration (wholeNoteDuration (1 / 2 ^ 25)) breve_c < 2 ^ 63"
    unfolding wholeNoteDuration_2_25 by (rule actualDuration_breve)
  have n1: "wholeNoteDuration (1 / 2 ^ 30)
      \<noteq> round (4 * 60000 / (1 / 2 ^ 30 :: real)) * Millisecond"
    unfolding a2 a3 by simp
  have n2: "wholeNoteDuration (5620132646469005 / 2 ^ 45)
      \<noteq> round (4 * 60000 / (5620132646469005 / 2 ^ 45) :: real) * Millisecond"
    unfolding b2 b3 by (simp add: Millisecond_def)
  have n3: "real_of_int (actualDuration (wholeNoteDuration 90) whole_c)
      \<noteq> DurationFactor whole_c * of_int (wholeNoteDuration 90)"
    by (rule differs_from_product [OF c3 c2 c1]) simp
  have n4: "real_of_int (actualDuration (wholeNoteDuration 240000) c_128th)
      \<noteq> DurationFactor c_128th * of_int (wholeNoteDuration 240000)"
    by (rule differs_from_product [OF d3 d2 d1]) simp
  have n5: "real_of_int (actualDuration (wholeNoteDuration (1 / 2 ^ 25)) breve_c)
      \<noteq> DurationFactor breve_c * of_int (wholeNoteDuration (1 / 2 ^ 25))"
    by (rule below_product [OF e3 e2 e1]) simp
  from a1 a2 a3 b1 b2 b3 c1 c2 c3 d1 d2 d3 e1 e2 e3 n1 n2 n3 n4 n5 show ?thesis
    by (intro conjI)
qed

section \<open>Properties of the pedal events\<close>

lemma handledPedalChange_pedal_up:
  "IsPedalUp n \<Longrightarrow>
   handledPedalChange m ch tline t [n]
     = (tline @ [(PedalEvent \<lparr>goingDown = False, channel = ch, out = stream m\<rparr>, t)], True)"
  by (simp add: handledPedalChange_def Schedule_def)

lemma handledPedalChange_no_pedal:
  "pedal n = NoPedal \<Longrightarrow> handledPedalChange m ch tline t [n] = (tline, False)"
  by (simp add: handledPedalChange_def IsPedalUp_def IsPedalUpDown_def IsPedalDown_def)

lemma handledPedalChange_not_single:
  "length g \<noteq> 1 \<Longrightarrow> handledPedalChange m ch tline t g = (tline, False)"
  by (cases g) (auto simp: handledPedalChange_def)

text \<open>
  C2. The claim is that a group of one note with a pedal marker (up, down or up-then-down) has
  a sustain-pedal Control-Change event submitted to the timeline at the moment of the note and
  is reported as handled. For a note with the marker down the code submits the event (value
  127) and reports the group as not handled: the result below is \<open>False\<close>, where the cases
  up and up-then-down give \<open>True\<close>.
\<close>

theorem handledPedalChange_pedal_down:
  "IsPedalDown (pedal_note PedalDown) \<and>
   handledPedalChange opened_midi 1 [] 1000 [pedal_note PedalDown]
     = ([(PedalEvent \<lparr>goingDown = True, channel = 1, out = 7\<rparr>, 1000)], False) \<and>
   Handle \<lparr>goingDown = True, channel = 1, out = 7\<rparr> = (7, WriteShort 0xB0 64 127)"
  by (simp add: handledPedalChange_def pedal_note_def opened_midi_def IsPedalUp_def
      IsPedalUpDown_def IsPedalDown_def Schedule_def Handle_def controlChange_def
      sustainPedal_def)

text \<open>
  C5. For a group of one note with the marker up-then-down, \<^verbatim>\<open>handledPedalChange\<close> submits
  two events and no more, the pedal going up and then the pedal going down, both at the moment
  of the note, and reports the group as handled. Among the events that fire at that moment the
  two come after what was submitted before, the up event right before the down event, and the
  events fire in the order of their instants. The up event writes the value 0 and the down
  event the value 127 for the sustain pedal.
\<close>

theorem updown_schedules_up_then_down:
  assumes "IsPedalUpDown n"
  shows "handledPedalChange m ch tline t [n]
       = (tline @ [(PedalEvent \<lparr>goingDown = False, channel = ch, out = stream m\<rparr>, t),
                (PedalEvent \<lparr>goingDown = True, channel = ch, out = stream m\<rparr>, t)], True) \<and>
     [x \<leftarrow> firing_order (fst (handledPedalChange m ch tline t [n])). snd x = t]
       = [x \<leftarrow> tline. snd x = t]
         @ [(PedalEvent \<lparr>goingDown = False, channel = ch, out = stream m\<rparr>, t),
            (PedalEvent \<lparr>goingDown = True, channel = ch, out = stream m\<rparr>, t)] \<and>
     sorted (map snd (firing_order (fst (handledPedalChange m ch tline t [n])))) \<and>
     length (firing_order (fst (handledPedalChange m ch tline t [n]))) = length tline + 2 \<and>
     Handle \<lparr>goingDown = False, channel = ch, out = stream m\<rparr>
       = (stream m, WriteShort (controlChange OR (ch - 1)) sustainPedal 0) \<and>
     Handle \<lparr>goingDown = True, channel = ch, out = stream m\<rparr>
       = (stream m, WriteShort (controlChange OR (ch - 1)) sustainPedal 127)"
proof -
  let ?up = "(PedalEvent \<lparr>goingDown = False, channel = ch, out = stream m\<rparr>, t)"
  let ?down = "(PedalEvent \<lparr>goingDown = True, channel = ch, out = stream m\<rparr>, t)"
  have h: "handledPedalChange m ch tline t [n] = (tline @ [?up, ?down], True)"
    using assms
    by (simp add: handledPedalChange_def IsPedalUpDown_def IsPedalUp_def Schedule_def)
  have f: "[x \<leftarrow> firing_order (tline @ [?up, ?down]). snd x = t]
             = [x \<leftarrow> tline. snd x = t] @ [?up, ?down]"
    unfolding firing_order_def
    using sort_key_stable [of snd t "tline @ [?up, ?down]"] by (simp add: eq_commute)
  have s: "sorted (map snd (firing_order (tline @ [?up, ?down])))"
    by (simp add: firing_order_def)
  have l: "length (firing_order (tline @ [?up, ?down])) = length tline + 2"
    by (simp add: firing_order_def)
  show ?thesis
    by (simp only: h fst_conv f s l) (simp add: Handle_def)
qed

theorem updown_schedules_up_then_down_witness:
  "IsPedalUpDown (pedal_note PedalUpDown) \<and>
   handledPedalChange opened_midi 1 [(OtherEvent 1, 2000), (OtherEvent 2, 1000)] 1000
       [pedal_note PedalUpDown]
     = ([(OtherEvent 1, 2000), (OtherEvent 2, 1000),
         (PedalEvent \<lparr>goingDown = False, channel = 1, out = 7\<rparr>, 1000),
         (PedalEvent \<lparr>goingDown = True, channel = 1, out = 7\<rparr>, 1000)], True) \<and>
   firing_order (fst (handledPedalChange opened_midi 1
       [(OtherEvent 1, 2000), (OtherEvent 2, 1000)] 1000 [pedal_note PedalUpDown]))
     = [(OtherEvent 2, 1000),
        (PedalEvent \<lparr>goingDown = False, channel = 1, out = 7\<rparr>, 1000),
        (PedalEvent \<lparr>goingDown = True, channel = 1, out = 7\<rparr>, 1000),
        (OtherEvent 1, 2000)] \<and>
   Handle \<lparr>goingDown = False, channel = 1, out = 7\<rparr> = (7, WriteShort 0xB0 64 0) \<and>
   Handle \<lparr>goingDown = True, channel = 1, out = 7\<rparr> = (7, WriteShort 0xB0 64 127)"
proof -
  have h: "IsPedalUpDown (pedal_note PedalUpDown)"
    by (simp add: IsPedalUpDown_def pedal_note_def)
  have s: "stream opened_midi = 7" by (simp add: opened_midi_def)
  note T = updown_schedules_up_then_down [OF h, of opened_midi 1
      "[(OtherEvent 1, 2000), (OtherEvent 2, 1000)]" 1000]
  from T have a: "handledPedalChange opened_midi 1 [(OtherEvent 1, 2000), (OtherEvent 2, 1000)]
       1000 [pedal_note PedalUpDown]
     = ([(OtherEvent 1, 2000), (OtherEvent 2, 1000),
         (PedalEvent \<lparr>goingDown = False, channel = 1, out = 7\<rparr>, 1000),
         (PedalEvent \<lparr>goingDown = True, channel = 1, out = 7\<rparr>, 1000)], True)"
    by (simp add: s)
  have b: "firing_order (fst (handledPedalChange opened_midi 1
       [(OtherEvent 1, 2000), (OtherEvent 2, 1000)] 1000 [pedal_note PedalUpDown]))
     = [(OtherEvent 2, 1000),
        (PedalEvent \<lparr>goingDown = False, channel = 1, out = 7\<rparr>, 1000),
        (PedalEvent \<lparr>goingDown = True, channel = 1, out = 7\<rparr>, 1000),
        (OtherEvent 1, 2000)]"
    unfolding a by (simp add: firing_order_def)
  have c: "Handle \<lparr>goingDown = False, channel = 1, out = 7\<rparr> = (7, WriteShort 0xB0 64 0)"
    "Handle \<lparr>goingDown = True, channel = 1, out = 7\<rparr> = (7, WriteShort 0xB0 64 127)"
    by (simp_all add: Handle_def controlChange_def sustainPedal_def)
  from h a b c show ?thesis by (intro conjI)
qed

section \<open>Properties of the device registry\<close>

text \<open>A caller alone: its two sections, run one after the other, are \<^verbatim>\<open>Output\<close>.\<close>

lemma Output_as_steps:
  "run_schedule so [0, 0] ([Calling i], d) = ([Returned (fst (Output so i d))], snd (Output so i d))"
  by (simp add: Output_def split_beta split: option.splits)

text \<open>Two first calls that do not overlap: one call to the stream registry, one device.\<close>

lemma Output_one_after_the_other:
  "fst (run_schedule (\<lambda>_. Inr 7) [0, 0, 1, 1] ([Calling 5, Calling 5], emptyRegistry))
     = [Returned (Inr 0), Returned (Inr 0)] \<and>
   outputCalls (snd (run_schedule (\<lambda>_. Inr 7) [0, 0, 1, 1] ([Calling 5, Calling 5], emptyRegistry)))
     = [5]"
  by (simp add: emptyRegistry_def Output_locked_def NewOutputDevice_def Let_def)

text \<open>
  C9. The claim is that concurrent first calls of \<^verbatim>\<open>Output\<close> for an id open one stream and
  give every caller the same device, because the cache is looked up again under the exclusive
  lock. The code does not look again. When two callers for the id 5 both miss under the shared
  lock and then take the exclusive lock in turn, each asks the stream registry for the stream
  and makes a device: the callers return the different addresses 0 and 1, the cache keeps the
  second, and the stream registry was called twice.
\<close>

theorem Output_first_access_interleaved:
  "fst (run_schedule (\<lambda>_. Inr 7) [0, 1, 0, 1] ([Calling 5, Calling 5], emptyRegistry))
     = [Returned (Inr 0), Returned (Inr 1)] \<and>
   outputCalls (snd (run_schedule (\<lambda>_. Inr 7) [0, 1, 0, 1] ([Calling 5, Calling 5], emptyRegistry)))
     = [5, 5] \<and>
   outCache (snd (run_schedule (\<lambda>_. Inr 7) [0, 1, 0, 1] ([Calling 5, Calling 5], emptyRegistry))) 5
     = Some 1 \<and>
   nextAddress (snd (run_schedule (\<lambda>_. Inr 7) [0, 1, 0, 1] ([Calling 5, Calling 5], emptyRegistry)))
     = 2"
  by (simp add: emptyRegistry_def Output_locked_def NewOutputDevice_def Let_def)

end
